theory Spec2Isabelle
  imports Complex_Main "HOL-Library.Sublist" "HOL-Library.Multiset"
begin

section \<open>JavaScript strings\<close>

text \<open>
  A JavaScript string is modelled as a \<^typ>\<open>string\<close>, one \<^typ>\<open>char\<close> per code unit.
  All literals of the program (\<open>Knots\<close>, \<open>/Satoshi:\<close>, the storage keys) are ASCII.
\<close>

text \<open>\<open>s.includes(pat)\<close>: \<open>pat\<close> occurs in \<open>s\<close> as a contiguous run of code units.\<close>

fun js_includes :: "string \<Rightarrow> string \<Rightarrow> bool" where
  "js_includes [] pat = (pat = [])"
| "js_includes (c # cs) pat = (prefix pat (c # cs) \<or> js_includes cs pat)"

text \<open>
  \<open>s.replace(pat, rep)\<close> with a string pattern: only the first occurrence of \<open>pat\<close>,
  wherever it is, is replaced. (The replacement texts of the program contain no \<open>$\<close>.)
\<close>

fun replace_first :: "string \<Rightarrow> string \<Rightarrow> string \<Rightarrow> string" where
  "replace_first pat rep [] = (if pat = [] then rep else [])"
| "replace_first pat rep (c # cs) =
     (if prefix pat (c # cs) then rep @ drop (length pat) (c # cs)
      else c # replace_first pat rep cs)"

text \<open>
  \<open>s.replace(/\/$/, '')\<close>: without the \<open>m\<close> flag \<open>$\<close> matches at the end of the input
  only, so the one possible match is a final slash.
\<close>

definition replace_trailing_slash :: "string \<Rightarrow> string" where
  "replace_trailing_slash s = (if s \<noteq> [] \<and> last s = CHR ''/'' then butlast s else s)"

section \<open>Numbers as text\<close>

text \<open>
  \<open>n.toString()\<close> for an integer: its decimal digits, with a minus sign for a negative
  one. (JavaScript switches to exponent notation from \<open>10\<^sup>2\<^sup>1\<close> on; the times read from
  \<open>Date.now()\<close> stay below \<open>10\<^sup>1\<^sup>6\<close> in absolute value.)
\<close>

definition digit_char :: "nat \<Rightarrow> char" where
  "digit_char d = char_of (48 + d)"

fun decimal :: "nat \<Rightarrow> string" where
  "decimal n = (if n < 10 then [digit_char n] else decimal (n div 10) @ [digit_char (n mod 10)])"

declare decimal.simps [simp del]

definition Number_toString :: "int \<Rightarrow> string" where
  "Number_toString i = (if i < 0 then CHR ''-'' # decimal (nat (- i)) else decimal (nat i))"

text \<open>
  \<open>parseInt(s)\<close> with no radix, step by step as ECMAScript defines it: leading white
  space is dropped, a sign is read, a prefix \<open>0x\<close> or \<open>0X\<close> selects radix 16, the longest
  run of digits of the radix is the numeral, and an empty run gives \<open>NaN\<close> (\<open>None\<close>).
  The integer is exact; a JavaScript number rounds it beyond \<open>2\<^sup>5\<^sup>3\<close>. White space is
  tab, line feed, vertical tab, form feed, carriage return, space and no-break space; the
  white space beyond code unit 255 has no \<^typ>\<open>char\<close>.
\<close>

definition white_space :: "char \<Rightarrow> bool" where
  "white_space c \<longleftrightarrow>
     c \<in> set [CHR 0x09, CHR 0x0A, CHR 0x0B, CHR 0x0C, CHR 0x0D, CHR 0x20, CHR 0xA0]"

definition digit_of :: "char \<Rightarrow> nat option" where
  "digit_of c =
     (let k = of_char c :: nat
      in if 48 \<le> k \<and> k \<le> 57 then Some (k - 48)
         else if 97 \<le> k \<and> k \<le> 122 then Some (k - 87)
         else if 65 \<le> k \<and> k \<le> 90 then Some (k - 55)
         else None)"

definition radix_digit :: "nat \<Rightarrow> char \<Rightarrow> bool" where
  "radix_digit R c = (case digit_of c of None \<Rightarrow> False | Some d \<Rightarrow> d < R)"

definition numeral_value :: "nat \<Rightarrow> string \<Rightarrow> nat" where
  "numeral_value R Z = foldl (\<lambda>a c. R * a + (case digit_of c of None \<Rightarrow> 0 | Some d \<Rightarrow> d)) 0 Z"

definition parseInt :: "string \<Rightarrow> int option" where
  "parseInt inputString =
     (let S = dropWhile white_space inputString;
          negative = (S \<noteq> [] \<and> hd S = CHR ''-'');
          S1 = (if S \<noteq> [] \<and> (hd S = CHR ''+'' \<or> hd S = CHR ''-'') then tl S else S);
          hex = (2 \<le> length S1 \<and> (take 2 S1 = ''0x'' \<or> take 2 S1 = ''0X''));
          S2 = (if hex then drop 2 S1 else S1);
          R = (if hex then 16 else 10);
          Z = takeWhile (radix_digit R) S2
      in if Z = [] then None
         else Some (if negative then - int (numeral_value R Z) else int (numeral_value R Z)))"

section \<open>Data\<close>

text \<open>
  \<open>NodeData\<close>: the thirteen-position tuple of one node. Position 1 is the version string;
  no other position is read by the program. Numbers are kept as integers.
\<close>

record node =
  protocol :: int
  version :: string
  connected_since :: int
  services :: int
  height :: int
  hostname :: "string option"
  city :: "string option"
  country :: "string option"
  latitude :: int
  longitude :: int
  timezone :: "string option"
  asn :: string
  organization :: string

text \<open>
  \<open>ApiResponse\<close>. The \<open>nodes\<close> object is the list of its entries in the order in which
  \<open>Object.values\<close> enumerates them.
\<close>

record ApiResponse =
  api_timestamp :: int
  api_total_nodes :: int
  api_latest_height :: int
  nodes :: "(string \<times> node) list"

definition Object_values :: "(string \<times> 'a) list \<Rightarrow> 'a list" where
  "Object_values obj = map snd obj"

section \<open>The aggregator: \<open>processNodeData\<close>\<close>

text \<open>
  \<open>counts\<close> is created by the object literal \<open>{}\<close>, so it inherits from
  \<open>Object.prototype\<close>. A value stored in it is a number or, after \<open>+ 1\<close> was applied
  to something that is not a number, a string.
\<close>

datatype count_value = Num nat | Text string

type_synonym counts_object = "(string \<times> count_value) list"

text \<open>What a property read \<open>counts[version]\<close> can give.\<close>

datatype js_value =
    Undefined
  | Own count_value
  | Inherited_Function string
  | Object_prototype

text \<open>The data properties of \<open>Object.prototype\<close>: all of them are functions and writable.\<close>

definition Object_prototype_functions :: "string list" where
  "Object_prototype_functions =
     [''constructor'', ''hasOwnProperty'', ''isPrototypeOf'', ''propertyIsEnumerable'',
      ''toLocaleString'', ''toString'', ''valueOf'',
      ''__defineGetter__'', ''__defineSetter__'', ''__lookupGetter__'', ''__lookupSetter__'']"

text \<open>
  \<open>counts[key]\<close>: an own property wins; otherwise the prototype is consulted, where
  \<open>__proto__\<close> is an accessor whose getter returns \<open>Object.prototype\<close> itself.
\<close>

definition get_property :: "counts_object \<Rightarrow> string \<Rightarrow> js_value" where
  "get_property obj key =
     (case map_of obj key of
        Some v \<Rightarrow> Own v
      | None \<Rightarrow>
          if key = ''__proto__'' then Object_prototype
          else if key \<in> set Object_prototype_functions then Inherited_Function key
          else Undefined)"

text \<open>
  \<open>(x || 0) + 1\<close>. \<open>undefined\<close>, \<open>0\<close> and the empty string are falsy and give \<open>0 + 1\<close>;
  a number is incremented; anything else is converted to a string and \<open>1\<close> is appended.
  The text of a built-in function is implementation-defined; the one written here is
  the common one, and nothing below depends on it. The function found under
  \<open>constructor\<close> is \<open>Object\<close>; the others are named as their property.
\<close>

definition native_function_text :: "string \<Rightarrow> string" where
  "native_function_text key =
     ''function '' @ (if key = ''constructor'' then ''Object'' else key) @ ''() { [native code] }''"

definition or_zero_plus_one :: "js_value \<Rightarrow> count_value" where
  "or_zero_plus_one x =
     (case x of
        Undefined \<Rightarrow> Num 1
      | Own (Num n) \<Rightarrow> Num (n + 1)
      | Own (Text s) \<Rightarrow> (if s = [] then Num 1 else Text (s @ ''1''))
      | Inherited_Function f \<Rightarrow> Text (native_function_text f @ ''1'')
      | Object_prototype \<Rightarrow> Text (''[object Object]'' @ ''1''))"

text \<open>
  The own properties of \<open>counts\<close> are kept in the order in which \<open>Object.entries\<close>
  enumerates them: first the keys that are array indices (canonical decimal numerals below
  \<open>2\<^sup>3\<^sup>2 - 1\<close>), ascending, then the other keys in the order of their creation.
\<close>

definition array_index :: "string \<Rightarrow> nat option" where
  "array_index key =
     (if key \<noteq> [] \<and> list_all (radix_digit 10) key \<and> (key = ''0'' \<or> hd key \<noteq> CHR ''0'')
         \<and> numeral_value 10 key < 4294967295
      then Some (numeral_value 10 key) else None)"

text \<open>A new property with array index \<open>i\<close> goes before the first key that is no smaller index.\<close>

fun insert_index :: "nat \<Rightarrow> string \<times> count_value \<Rightarrow> counts_object \<Rightarrow> counts_object" where
  "insert_index i p [] = [p]"
| "insert_index i p ((k, w) # obj) =
     (case array_index k of
        Some j \<Rightarrow> if j < i then (k, w) # insert_index i p obj else p # (k, w) # obj
      | None \<Rightarrow> p # (k, w) # obj)"

definition create_own :: "counts_object \<Rightarrow> string \<Rightarrow> count_value \<Rightarrow> counts_object" where
  "create_own obj key v =
     (case array_index key of
        Some i \<Rightarrow> insert_index i (key, v) obj
      | None \<Rightarrow> obj @ [(key, v)])"

text \<open>An existing own property keeps its place.\<close>

fun overwrite_own :: "counts_object \<Rightarrow> string \<Rightarrow> count_value \<Rightarrow> counts_object" where
  "overwrite_own [] key v = []"
| "overwrite_own ((k, w) # obj) key v =
     (if k = key then (k, v) # obj else (k, w) # overwrite_own obj key v)"

definition update_own :: "counts_object \<Rightarrow> string \<Rightarrow> count_value \<Rightarrow> counts_object" where
  "update_own obj key v =
     (if map_of obj key = None then create_own obj key v else overwrite_own obj key v)"

text \<open>
  \<open>counts[key] = v\<close>. For the key \<open>__proto__\<close> with no own property of that name the
  assignment runs the setter of \<open>Object.prototype\<close>, which ignores a value that is
  neither an object nor \<open>null\<close>: nothing is stored. (An own property \<open>__proto__\<close> cannot
  arise, so the first test always succeeds for that key.)
\<close>

definition set_property :: "counts_object \<Rightarrow> string \<Rightarrow> count_value \<Rightarrow> counts_object" where
  "set_property obj key v =
     (if key = ''__proto__'' \<and> map_of obj key = None then obj else update_own obj key v)"

record aggregate =
  counts :: counts_object
  knots :: nat
  others :: nat

text \<open>The body of the \<open>forEach\<close> callback of \<open>processNodeData\<close>.\<close>

definition count_node :: "aggregate \<Rightarrow> node \<Rightarrow> aggregate" where
  "count_node a n =
     (let v = version n;
          c = set_property (counts a) v (or_zero_plus_one (get_property (counts a) v))
      in if js_includes v ''Knots''
         then a\<lparr>counts := c, knots := knots a + 1\<rparr>
         else a\<lparr>counts := c, others := others a + 1\<rparr>)"

text \<open>
  \<open>processNodeData\<close>: the values handed to \<open>setVersionCounts\<close>, \<open>setKnotsCount\<close> and
  \<open>setOtherCount\<close>.
\<close>

definition processNodeData :: "ApiResponse \<Rightarrow> aggregate" where
  "processNodeData data =
     foldl count_node \<lparr>counts = [], knots = 0, others = 0\<rparr> (Object_values (nodes data))"

text \<open>
  The sum of the values of a counts object; there is none when a value is not a number.
\<close>

fun sum_counts :: "counts_object \<Rightarrow> nat option" where
  "sum_counts [] = Some 0"
| "sum_counts ((k, Num n) # obj) = map_option (\<lambda>s. n + s) (sum_counts obj)"
| "sum_counts ((k, Text t) # obj) = None"

text \<open>The names a version string must avoid for its tally to be a number.\<close>

definition prototype_name :: "string \<Rightarrow> bool" where
  "prototype_name key \<longleftrightarrow> key = ''__proto__'' \<or> key \<in> set Object_prototype_functions"

section \<open>The marker count of the historical backfill\<close>

text \<open>The \<open>forEach\<close> loop of \<open>fetchHistoricalData\<close> over one fetched snapshot.\<close>

definition knotsCount_step :: "nat \<Rightarrow> node \<Rightarrow> nat" where
  "knotsCount_step knotsCount n =
     (if js_includes (version n) ''Knots'' then knotsCount + 1 else knotsCount)"

definition snapshot_knotsCount :: "ApiResponse \<Rightarrow> nat" where
  "snapshot_knotsCount data = foldl knotsCount_step 0 (Object_values (nodes data))"

section \<open>The table: \<open>sortedVersions\<close>\<close>

text \<open>\<open>version.replace('/Satoshi:', '').replace(/\/$/, '')\<close>\<close>

definition display_name :: "string \<Rightarrow> string" where
  "display_name v = replace_trailing_slash (replace_first ''/Satoshi:'' [] v)"

text \<open>
  \<open>versionCounts\<close> as the table reads it: the entries of the object in the order of
  \<open>Object.entries\<close>, with numbers as values, as the state's type declares.
  \<open>sort\<close> with the comparator \<open>b - a\<close> on the counts is a stable sort by descending
  count (\<open>Array.prototype.sort\<close> is stable since ECMAScript 2019, and a stable sort by a
  consistent comparator has one possible result); \<open>sort_key\<close> is the stable insertion
  sort.
\<close>

type_synonym version_counts = "(string \<times> int) list"

definition sortedVersions :: "version_counts \<Rightarrow> (string \<times> int) list" where
  "sortedVersions versionCounts =
     map (\<lambda>(v, c). (display_name v, c))
       (take 21 (sort_key (\<lambda>(v, c). - c) versionCounts))"

section \<open>The cache in \<open>localStorage\<close>\<close>

text \<open>
  \<open>localStorage\<close>: \<open>getItem(key)\<close> is \<open>storage key\<close> (\<open>None\<close> for \<open>null\<close>), and
  \<open>setItem(key, v)\<close> is \<open>storage(key \<mapsto> v)\<close>.
\<close>

type_synonym storage = "string \<Rightarrow> string option"

definition CACHE_DURATION_nodeData :: int where
  "CACHE_DURATION_nodeData = 21 * 60 * 1000"

definition CACHE_DURATION_snapshots :: int where
  "CACHE_DURATION_snapshots = 24 * 60 * 60 * 1000"

text \<open>
  The test \<open>cachedData && cachedTimestamp && (currentTime - parseInt(cachedTimestamp)) <
  CACHE_DURATION\<close>, giving the cached text when it holds. \<open>null\<close> and the empty string
  are falsy, and a comparison with \<open>NaN\<close> is false.
\<close>

definition fresh_cache :: "string option \<Rightarrow> string option \<Rightarrow> int \<Rightarrow> int \<Rightarrow> string option" where
  "fresh_cache cachedData cachedTimestamp currentTime CACHE_DURATION =
     (case cachedData of
        None \<Rightarrow> None
      | Some d \<Rightarrow>
          (case cachedTimestamp of
             None \<Rightarrow> None
           | Some ts \<Rightarrow>
               (case parseInt ts of
                  None \<Rightarrow> None
                | Some t \<Rightarrow>
                    if d \<noteq> [] \<and> ts \<noteq> [] \<and> currentTime - t < CACHE_DURATION then Some d
                    else None)))"

text \<open>The cache reads at the head of \<open>fetchData\<close> and of \<open>fetchHistoricalData\<close>.\<close>

definition nodeData_cache :: "storage \<Rightarrow> int \<Rightarrow> string option" where
  "nodeData_cache st currentTime =
     fresh_cache (st ''nodeData'') (st ''nodeDataTimestamp'') currentTime CACHE_DURATION_nodeData"

definition snapshots_cache :: "storage \<Rightarrow> int \<Rightarrow> string option" where
  "snapshots_cache st currentTime =
     fresh_cache (st ''knotsgoup_snapshots'') (st ''knotsgoup_snapshots_timestamp'') currentTime
       CACHE_DURATION_snapshots"

text \<open>The two \<open>setItem\<close> calls that end a successful fetch, in the order of the code.\<close>

definition store_nodeData :: "storage \<Rightarrow> string \<Rightarrow> int \<Rightarrow> storage" where
  "store_nodeData st json currentTime =
     (st(''nodeData'' \<mapsto> json))(''nodeDataTimestamp'' \<mapsto> Number_toString currentTime)"

definition store_snapshots :: "storage \<Rightarrow> string \<Rightarrow> int \<Rightarrow> storage" where
  "store_snapshots st json currentTime =
     (st(''knotsgoup_snapshots'' \<mapsto> json))
       (''knotsgoup_snapshots_timestamp'' \<mapsto> Number_toString currentTime)"

section \<open>The historical backfill: \<open>fetchHistoricalData\<close>\<close>

text \<open>A listing summary (\<open>Snapshot\<close>) and a listing page (\<open>SnapshotResponse\<close>).\<close>

record Snapshot =
  url :: string
  timestamp :: int
  total_nodes :: int
  latest_height :: int

record SnapshotResponse =
  count_all :: int
  next_url :: "string option"
  previous :: "string option"
  results :: "Snapshot list"

text \<open>An element of \<open>historicalData\<close>: \<open>{ timestamp, knotsCount }\<close>.\<close>

record historical_point =
  point_timestamp :: int
  point_knotsCount :: nat

text \<open>
  What a rejected \<open>axios.get\<close> or a throwing \<open>JSON.parse\<close> hands to the \<open>catch\<close>, and what
  \<open>toFixed\<close> throws.
\<close>

datatype js_error = AxiosError | TypeError | SyntaxError | RangeError

text \<open>The network calls of the backfill, in the order they are made.\<close>

datatype request = GetListing string | GetSnapshot string

text \<open>
  The environment of a run. The answer to a request may depend on when it is made:
  \<open>axios_get_listing env k u\<close> is the outcome of \<open>axios.get<SnapshotResponse>(u)\<close> when
  \<open>k\<close> requests were made before it in the run, and likewise for
  \<open>axios.get<ApiResponse>\<close>. \<open>JSON_stringify\<close> and \<open>JSON_parse\<close> are the built-ins at the
  type of \<open>historicalData\<close>.
\<close>

record env =
  axios_get_listing :: "nat \<Rightarrow> string \<Rightarrow> js_error + SnapshotResponse"
  axios_get_snapshot :: "nat \<Rightarrow> string \<Rightarrow> js_error + ApiResponse"
  JSON_stringify :: "historical_point list \<Rightarrow> string"
  JSON_parse :: "string \<Rightarrow> js_error + historical_point list"

definition ONE_WEEK_MS :: int where
  "ONE_WEEK_MS = 7 * 24 * 60 * 60 * 1000"

definition MAX_API_CALLS :: nat where
  "MAX_API_CALLS = 12"

text \<open>\<open>!lastTimestamp\<close>: true for \<open>null\<close> and for the number \<open>0\<close>.\<close>

definition not_lastTimestamp :: "int option \<Rightarrow> bool" where
  "not_lastTimestamp lastTimestamp \<longleftrightarrow> lastTimestamp = None \<or> lastTimestamp = Some 0"

text \<open>
  \<open>snapshots.filter(...)\<close> of one page. The callback reads and writes \<open>lastTimestamp\<close>,
  which is declared outside the page loop: the function takes its value before the page
  and returns the kept summaries with its value after the page.
\<close>

fun filter_snapshots :: "int option \<Rightarrow> Snapshot list \<Rightarrow> Snapshot list \<times> int option" where
  "filter_snapshots lastTimestamp [] = ([], lastTimestamp)"
| "filter_snapshots lastTimestamp (snapshot # snapshots) =
     (if not_lastTimestamp lastTimestamp then
        (let (kept, l) = filter_snapshots (Some (timestamp snapshot)) snapshots
         in (snapshot # kept, l))
      else
        (case lastTimestamp of
           None \<Rightarrow> filter_snapshots lastTimestamp snapshots
         | Some t \<Rightarrow>
             if \<bar>timestamp snapshot - t\<bar> \<ge> ONE_WEEK_MS div 1000 then
               (let (kept, l) = filter_snapshots (Some (timestamp snapshot)) snapshots
                in (snapshot # kept, l))
             else filter_snapshots lastTimestamp snapshots))"

text \<open>
  The loop \<open>for (const snapshot of filteredSnapshots)\<close>: one request per kept summary; the
  first failing one ends the loop with its error. The request log and the local array
  \<open>historicalData\<close> are passed through.
\<close>

fun fetch_details ::
  "env \<Rightarrow> Snapshot list \<Rightarrow> request list \<Rightarrow> historical_point list \<Rightarrow>
   js_error option \<times> request list \<times> historical_point list" where
  "fetch_details e [] reqs pts = (None, reqs, pts)"
| "fetch_details e (snapshot # rest) reqs pts =
     (case axios_get_snapshot e (length reqs) (url snapshot) of
        Inl err \<Rightarrow> (Some err, reqs @ [GetSnapshot (url snapshot)], pts)
      | Inr data \<Rightarrow>
          fetch_details e rest (reqs @ [GetSnapshot (url snapshot)])
            (pts @ [\<lparr>point_timestamp = timestamp snapshot,
                     point_knotsCount = snapshot_knotsCount data\<rparr>]))"

text \<open>
  The variables of the \<open>while\<close> loop. \<open>collected\<close> is the local array \<open>historicalData\<close>.
  \<open>requests\<close> (the network calls made so far) and \<open>listed\<close> (the summaries received so far,
  page after page) are not variables of the program: they record what the run did.
\<close>

record backfill =
  collected :: "historical_point list"
  nextUrl :: "string option"
  lastTimestamp :: "int option"
  apiCallCount :: nat
  requests :: "request list"
  listed :: "Snapshot list"

text \<open>
  \<open>while (nextUrl && apiCallCount < MAX_API_CALLS)\<close>. \<open>null\<close> and the empty string are
  falsy. The result is the error that ended the run, if any, and the variables then.
\<close>

function backfill_loop :: "env \<Rightarrow> backfill \<Rightarrow> js_error option \<times> backfill" where
  "backfill_loop e st =
     (case nextUrl st of
        None \<Rightarrow> (None, st)
      | Some u \<Rightarrow>
          if u = [] \<or> \<not> apiCallCount st < MAX_API_CALLS then (None, st)
          else
            (let st1 = st\<lparr>apiCallCount := apiCallCount st + 1,
                           requests := requests st @ [GetListing u]\<rparr>
             in case axios_get_listing e (length (requests st)) u of
                  Inl err \<Rightarrow> (Some err, st1)
                | Inr response \<Rightarrow>
                    (let snapshots = results response;
                         (filteredSnapshots, l) = filter_snapshots (lastTimestamp st1) snapshots;
                         (failure, reqs, pts) =
                            fetch_details e filteredSnapshots (requests st1) (collected st1);
                         st2 = st1\<lparr>collected := pts, lastTimestamp := l, requests := reqs,
                                     listed := listed st1 @ snapshots\<rparr>
                     in case failure of
                          Some err \<Rightarrow> (Some err, st2)
                        | None \<Rightarrow> backfill_loop e (st2\<lparr>nextUrl := next_url response\<rparr>))))"
  by pat_completeness auto
termination
  by (relation "measure (\<lambda>(e, st). MAX_API_CALLS - apiCallCount st)") auto

declare backfill_loop.simps [simp del]

definition initial_backfill :: backfill where
  "initial_backfill =
     \<lparr>collected = [], nextUrl = Some ''https://bitnodes.io/api/v1/snapshots/'',
      lastTimestamp = None, apiCallCount = 0, requests = [], listed = []\<rparr>"

text \<open>The state of the component, and what a run can touch: the cache and the console.\<close>

record app_state =
  nodeData :: "ApiResponse option"
  versionCounts :: counts_object
  knotsCount :: nat
  otherCount :: nat
  totalNodes :: int
  isLoading :: bool
  historicalData :: "historical_point list"
  isLoadingHistorical :: bool

record world =
  localStorage :: storage
  app :: app_state
  console_error :: "js_error list"

text \<open>
  \<open>fetchHistoricalData\<close>, run at time \<open>currentTime = Date.now()\<close>: the world after the
  run, and the network calls the run made. The \<open>finally\<close> block clears
  \<open>isLoadingHistorical\<close> on every path. \<open>historicalData.sort((a, b) => a.timestamp -
  b.timestamp)\<close> is a stable sort by ascending timestamp.
\<close>

definition fetchHistoricalData :: "env \<Rightarrow> int \<Rightarrow> world \<Rightarrow> world \<times> request list" where
  "fetchHistoricalData e currentTime w =
     (case snapshots_cache (localStorage w) currentTime of
        Some cachedData \<Rightarrow>
          (case JSON_parse e cachedData of
             Inl err \<Rightarrow>
               (w\<lparr>console_error := console_error w @ [err],
                   app := (app w)\<lparr>isLoadingHistorical := False\<rparr>\<rparr>, [])
           | Inr parsedData \<Rightarrow>
               (w\<lparr>app := (app w)\<lparr>historicalData := parsedData,
                                   isLoadingHistorical := False\<rparr>\<rparr>, []))
      | None \<Rightarrow>
          (case backfill_loop e initial_backfill of
             (Some err, st) \<Rightarrow>
               (w\<lparr>console_error := console_error w @ [err],
                   app := (app w)\<lparr>isLoadingHistorical := False\<rparr>\<rparr>, requests st)
           | (None, st) \<Rightarrow>
               (let sortedData = sort_key point_timestamp (collected st)
                in (w\<lparr>localStorage :=
                         store_snapshots (localStorage w) (JSON_stringify e sortedData) currentTime,
                       app := (app w)\<lparr>historicalData := sortedData,
                                       isLoadingHistorical := False\<rparr>\<rparr>, requests st))))"

text \<open>The number of listing pages a run fetched.\<close>

definition listing_fetches :: "request list \<Rightarrow> nat" where
  "listing_fetches reqs =
     length (filter (\<lambda>r. case r of GetListing u \<Rightarrow> True | GetSnapshot u \<Rightarrow> False) reqs)"

text \<open>
  Consecutive points are at least a week (604800 seconds) apart, in ascending order.
\<close>

fun week_spaced :: "int list \<Rightarrow> bool" where
  "week_spaced [] = True"
| "week_spaced [t] = True"
| "week_spaced (t # t' # ts) = (t + 604800 \<le> t' \<and> week_spaced (t' # ts))"

text \<open>The request \<open>r\<close>, made as the \<open>k\<close>-th of a run (counting from 0), was rejected.\<close>

definition request_failed :: "env \<Rightarrow> nat \<Rightarrow> request \<Rightarrow> bool" where
  "request_failed e k r =
     (case r of
        GetListing u \<Rightarrow> isl (axios_get_listing e k u)
      | GetSnapshot u \<Rightarrow> isl (axios_get_snapshot e k u))"

text \<open>No request of the log was rejected.\<close>

definition all_ok :: "env \<Rightarrow> request list \<Rightarrow> bool" where
  "all_ok e reqs \<longleftrightarrow> (\<forall>k<length reqs. \<not> request_failed e k (reqs ! k))"

text \<open>
  The request \<open>r\<close>, made as the \<open>k\<close>-th of a run, was answered, and if it asked for a
  listing page, the page came with a \<open>next\<close> that lets the loop go on: a non-empty URL.
\<close>

definition request_served :: "env \<Rightarrow> nat \<Rightarrow> request \<Rightarrow> bool" where
  "request_served e k r =
     (case r of
        GetListing u \<Rightarrow>
          (case axios_get_listing e k u of
             Inl err \<Rightarrow> False
           | Inr page \<Rightarrow> (case next_url page of None \<Rightarrow> False | Some v \<Rightarrow> v \<noteq> []))
      | GetSnapshot u \<Rightarrow> \<not> isl (axios_get_snapshot e k u))"

definition all_served :: "env \<Rightarrow> request list \<Rightarrow> bool" where
  "all_served e reqs \<longleftrightarrow> (\<forall>k<length reqs. request_served e k (reqs ! k))"

section \<open>The percentage column\<close>







section \<open>A compact JSON codec for the historical series\<close>

text \<open>
  The text \<open>JSON.stringify\<close> produces for an array of \<open>{ timestamp, knotsCount }\<close>
  objects, and a parser of such texts. They serve as the built-ins of the concrete
  environments below.
\<close>

definition stringify_point :: "historical_point \<Rightarrow> string" where
  \<open>stringify_point p =
     ''{"timestamp":'' @ Number_toString (point_timestamp p) @
     '',"knotsCount":'' @ Number_toString (int (point_knotsCount p)) @ ''}''\<close>

fun join_commas :: "string list \<Rightarrow> string" where
  "join_commas [] = []"
| "join_commas [x] = x"
| "join_commas (x # y # ys) = x @ '','' @ join_commas (y # ys)"

definition compact_stringify :: "historical_point list \<Rightarrow> string" where
  "compact_stringify ps = ''['' @ join_commas (map stringify_point ps) @ '']''"

definition expect :: "string \<Rightarrow> string \<Rightarrow> string option" where
  "expect lit s = (if prefix lit s then Some (drop (length lit) s) else None)"

definition read_integer :: "string \<Rightarrow> (int \<times> string) option" where
  "read_integer s =
     (let negative = (s \<noteq> [] \<and> hd s = CHR ''-'');
          s1 = (if negative then tl s else s);
          Z = takeWhile (radix_digit 10) s1
      in if Z = [] then None
         else Some (if negative then - int (numeral_value 10 Z) else int (numeral_value 10 Z),
                    dropWhile (radix_digit 10) s1))"

definition parse_point :: "string \<Rightarrow> (historical_point \<times> string) option" where
  \<open>parse_point s =
     (case expect ''{"timestamp":'' s of
        None \<Rightarrow> None
      | Some s1 \<Rightarrow>
          (case read_integer s1 of
             None \<Rightarrow> None
           | Some (t, s2) \<Rightarrow>
               (case expect '',"knotsCount":'' s2 of
                  None \<Rightarrow> None
                | Some s3 \<Rightarrow>
                    (case read_integer s3 of
                       None \<Rightarrow> None
                     | Some (k, s4) \<Rightarrow>
                         (case expect ''}'' s4 of
                            None \<Rightarrow> None
                          | Some s5 \<Rightarrow>
                              if k < 0 then None
                              else Some (\<lparr>point_timestamp = t, point_knotsCount = nat k\<rparr>,
                                         s5))))))\<close>

fun parse_items :: "nat \<Rightarrow> string \<Rightarrow> historical_point list option" where
  "parse_items 0 s = None"
| "parse_items (Suc n) s =
     (case parse_point s of
        None \<Rightarrow> None
      | Some (p, r) \<Rightarrow>
          if r = '']'' then Some [p]
          else (case expect '','' r of
                  None \<Rightarrow> None
                | Some r' \<Rightarrow> map_option ((#) p) (parse_items n r')))"

definition compact_parse :: "string \<Rightarrow> js_error + historical_point list" where
  "compact_parse s =
     (case expect ''['' s of
        None \<Rightarrow> Inl SyntaxError
      | Some r \<Rightarrow>
          if r = '']'' then Inr []
          else (case parse_items (length r) r of
                  None \<Rightarrow> Inl SyntaxError
                | Some ps \<Rightarrow> Inr ps))"

section \<open>Concrete inputs\<close>

definition node_with_version :: "string \<Rightarrow> node" where
  "node_with_version v =
     \<lparr>protocol = 70016, version = v, connected_since = 1700000000, services = 1033,
      height = 800000, hostname = None, city = None, country = None, latitude = 0,
      longitude = 0, timezone = None, asn = ''AS0'', organization = []\<rparr>"

text \<open>A snapshot with a single node, whose version string is \<open>__proto__\<close>.\<close>

definition proto_snapshot :: ApiResponse where
  "proto_snapshot =
     \<lparr>api_timestamp = 1700000000, api_total_nodes = 1, api_latest_height = 800000,
      nodes = [(''203.0.113.7:8333'', node_with_version ''__proto__'')]\<rparr>"

text \<open>A snapshot of three nodes with the version strings \<open>b\<close>, \<open>2\<close> and \<open>1\<close>, in this order.\<close>

definition index_snapshot :: ApiResponse where
  "index_snapshot =
     \<lparr>api_timestamp = 1700000000, api_total_nodes = 3, api_latest_height = 800000,
      nodes = [(''203.0.113.7:8333'', node_with_version ''b''),
               (''198.51.100.2:8333'', node_with_version ''2''),
               (''192.0.2.9:8333'', node_with_version ''1'')]\<rparr>"

text \<open>A snapshot of two nodes, one of them running Knots.\<close>

definition knots_snapshot :: ApiResponse where
  "knots_snapshot =
     \<lparr>api_timestamp = 1700000000, api_total_nodes = 2, api_latest_height = 800000,
      nodes = [(''203.0.113.7:8333'', node_with_version ''/Satoshi:27.1.0/Knots:20240801/''),
               (''198.51.100.2:8333'', node_with_version ''/Satoshi:27.0.0/'')]\<rparr>"

definition summary :: "string \<Rightarrow> int \<Rightarrow> Snapshot" where
  "summary u t = \<lparr>url = u, timestamp = t, total_nodes = 2, latest_height = 800000\<rparr>"

text \<open>
  A listing of ten snapshots at one-day intervals, newest first, around the start of
  Unix time: the eighth has timestamp 0.
\<close>

definition day_listing :: "Snapshot list" where
  "day_listing =
     [summary ''https://bitnodes.io/api/v1/snapshots/604800/'' 604800,
      summary ''https://bitnodes.io/api/v1/snapshots/518400/'' 518400,
      summary ''https://bitnodes.io/api/v1/snapshots/432000/'' 432000,
      summary ''https://bitnodes.io/api/v1/snapshots/345600/'' 345600,
      summary ''https://bitnodes.io/api/v1/snapshots/259200/'' 259200,
      summary ''https://bitnodes.io/api/v1/snapshots/172800/'' 172800,
      summary ''https://bitnodes.io/api/v1/snapshots/86400/'' 86400,
      summary ''https://bitnodes.io/api/v1/snapshots/0/'' 0,
      summary ''https://bitnodes.io/api/v1/snapshots/-86400/'' (- 86400),
      summary ''https://bitnodes.io/api/v1/snapshots/-172800/'' (- 172800)]"

text \<open>The network serves that listing as a single page, and every snapshot.\<close>

definition env_1970 :: env where
  "env_1970 =
     \<lparr>axios_get_listing =
        (\<lambda>k u. Inr \<lparr>count_all = 10, next_url = None, previous = None, results = day_listing\<rparr>),
      axios_get_snapshot = (\<lambda>k u. Inr knots_snapshot),
      JSON_stringify = compact_stringify, JSON_parse = compact_parse\<rparr>"

text \<open>A listing page with one summary and a link to a next page.\<close>

definition endless_page :: SnapshotResponse where
  "endless_page =
     \<lparr>count_all = 1000, next_url = Some ''https://bitnodes.io/api/v1/snapshots/?page=2'',
      previous = None,
      results = [summary ''https://bitnodes.io/api/v1/snapshots/1700000000/'' 1700000000]\<rparr>"

text \<open>Every listing request is answered by that page; every snapshot request is rejected.\<close>

definition env_details_fail :: env where
  "env_details_fail =
     \<lparr>axios_get_listing = (\<lambda>k u. Inr endless_page),
      axios_get_snapshot = (\<lambda>k u. Inl AxiosError),
      JSON_stringify = compact_stringify, JSON_parse = compact_parse\<rparr>"

text \<open>Every listing request is answered by that page, and every snapshot is served.\<close>

definition env_endless :: env where
  "env_endless =
     \<lparr>axios_get_listing = (\<lambda>k u. Inr endless_page),
      axios_get_snapshot = (\<lambda>k u. Inr knots_snapshot),
      JSON_stringify = compact_stringify, JSON_parse = compact_parse\<rparr>"

text \<open>
  The network serves the listing pages and the snapshot that a run over \<open>endless_page\<close>
  asks for, and rejects every other request.
\<close>

definition env_only :: env where
  "env_only =
     \<lparr>axios_get_listing =
        (\<lambda>k u. if u = ''https://bitnodes.io/api/v1/snapshots/''
                   \<or> u = ''https://bitnodes.io/api/v1/snapshots/?page=2''
                then Inr endless_page else Inl AxiosError),
      axios_get_snapshot =
        (\<lambda>k u. if u = ''https://bitnodes.io/api/v1/snapshots/1700000000/''
                then Inr knots_snapshot else Inl AxiosError),
      JSON_stringify = compact_stringify, JSON_parse = compact_parse\<rparr>"

text \<open>A listing of ten snapshots at one-day intervals, newest first, in November 2023.\<close>

definition daily_listing :: "Snapshot list" where
  "daily_listing =
     [summary ''https://bitnodes.io/api/v1/snapshots/1700000000/'' 1700000000,
      summary ''https://bitnodes.io/api/v1/snapshots/1699913600/'' 1699913600,
      summary ''https://bitnodes.io/api/v1/snapshots/1699827200/'' 1699827200,
      summary ''https://bitnodes.io/api/v1/snapshots/1699740800/'' 1699740800,
      summary ''https://bitnodes.io/api/v1/snapshots/1699654400/'' 1699654400,
      summary ''https://bitnodes.io/api/v1/snapshots/1699568000/'' 1699568000,
      summary ''https://bitnodes.io/api/v1/snapshots/1699481600/'' 1699481600,
      summary ''https://bitnodes.io/api/v1/snapshots/1699395200/'' 1699395200,
      summary ''https://bitnodes.io/api/v1/snapshots/1699308800/'' 1699308800,
      summary ''https://bitnodes.io/api/v1/snapshots/1699222400/'' 1699222400]"

definition env_daily :: env where
  "env_daily =
     \<lparr>axios_get_listing =
        (\<lambda>k u. Inr \<lparr>count_all = 10, next_url = None, previous = None, results = daily_listing\<rparr>),
      axios_get_snapshot = (\<lambda>k u. Inr knots_snapshot),
      JSON_stringify = compact_stringify, JSON_parse = compact_parse\<rparr>"

text \<open>The component after mounting, with an empty cache.\<close>

definition initial_app :: app_state where
  "initial_app =
     \<lparr>nodeData = None, versionCounts = [], knotsCount = 0, otherCount = 0, totalNodes = 0,
      isLoading = True, historicalData = [], isLoadingHistorical = True\<rparr>"

definition world0 :: world where
  "world0 = \<lparr>localStorage = Map.empty, app = initial_app, console_error = []\<rparr>"

text \<open>A world whose cache holds an old series and whose chart shows one point.\<close>

definition world_stale :: world where
  "world_stale =
     \<lparr>localStorage = store_snapshots Map.empty ''[]'' 0,
      app = initial_app\<lparr>historicalData := [\<lparr>point_timestamp = 1690000000, point_knotsCount = 7\<rparr>]\<rparr>,
      console_error = []\<rparr>"

text \<open>Thirty distinct versions with their counts; several counts occur more than once.\<close>

definition thirty_versions :: version_counts where
  "thirty_versions =
     [(''/Satoshi:27.0.0/'', 5200), (''/Satoshi:26.0.0/'', 3100), (''/Satoshi:25.0.0/'', 3100),
      (''/Satoshi:27.1.0/Knots:20240801/'', 900), (''/Satoshi:24.0.1/'', 2400),
      (''/Satoshi:23.0.0/'', 900), (''/Satoshi:22.0.0/'', 1500), (''/Satoshi:0.21.1/'', 700),
      (''/Satoshi:0.21.0/'', 700), (''/Satoshi:0.20.1/'', 300), (''/Satoshi:0.20.0/'', 120),
      (''/Satoshi:0.19.1/'', 110), (''/Satoshi:0.19.0.1/'', 100), (''/Satoshi:0.18.1/'', 95),
      (''/Satoshi:0.18.0/'', 90), (''/Satoshi:0.17.1/'', 80), (''/Satoshi:0.17.0/'', 70),
      (''/Satoshi:0.16.3/'', 60), (''/Satoshi:0.16.0/'', 50), (''/Satoshi:0.15.1/'', 40),
      (''/Satoshi:0.15.0/'', 30), (''/Satoshi:0.14.2/'', 20), (''/Satoshi:0.13.2/'', 20),
      (''/Satoshi:0.13.1/'', 20), (''/Satoshi:0.12.1/'', 10), (''/btcwire:0.5.0/btcd:0.24.0/'', 10),
      (''/Satoshi:26.1.0/Knots:20240325/'', 10), (''/bcoin:2.2.0/'', 5), (''/Gocoin:1.10.0/'', 5),
      (''/libbitcoin:4.0.0/'', 1)]"

section \<open>Properties of the string functions\<close>

lemma includes_iff_sublist: "js_includes s pat \<longleftrightarrow> sublist pat s"
  by (induction s) (auto simp: sublist_Cons_right)

lemma replace_first_absent: "\<not> js_includes s pat \<Longrightarrow> replace_first pat rep s = s"
  by (induction s) auto

lemma replace_first_unfold:
  "xs \<noteq> [] \<Longrightarrow> replace_first pat rep xs =
     (if prefix pat xs then rep @ drop (length pat) xs else hd xs # replace_first pat rep (tl xs))"
  by (cases xs) simp_all

lemma replace_first_prefix: "replace_first pat rep (pat @ s) = rep @ s"
  by (cases "pat @ s = []") (simp_all add: replace_first_unfold)

text \<open>
  When the occurrence of \<open>pat\<close> after \<open>p\<close> is the first one, it is the one replaced.
\<close>

lemma replace_first_first_occurrence:
  "\<not> js_includes (p @ butlast pat) pat \<Longrightarrow> pat \<noteq> [] \<Longrightarrow>
   replace_first pat rep (p @ pat @ s) = p @ rep @ s"
proof (induction p)
  case Nil
  then show ?case by (simp add: replace_first_prefix)
next
  case (Cons c p)
  have no_prefix: "\<not> prefix pat (c # p @ pat @ s)"
  proof
    assume pre: "prefix pat (c # p @ pat @ s)"
    have len: "length pat \<le> length ((c # p) @ butlast pat)"
      using Cons.prems(2) by (cases pat rule: rev_cases) auto
    have split: "c # p @ pat @ s = ((c # p) @ butlast pat) @ (last pat # s)"
      using Cons.prems(2) by (cases pat rule: rev_cases) auto
    have "prefix ((c # p) @ butlast pat) (c # p @ pat @ s)"
      unfolding split by (rule prefixI) simp
    from prefix_length_prefix[OF pre this len] have "prefix pat ((c # p) @ butlast pat)" .
    with Cons.prems(1) show False by simp
  qed
  from Cons.prems have "\<not> js_includes (p @ butlast pat) pat" by simp
  with Cons.IH Cons.prems(2) no_prefix show ?case by simp
qed

section \<open>Display names\<close>

text \<open>
  C5, as the specification states it, fails: the version \<open>/Knots:20.1/\<close> keeps its
  leading slash, so its display name is not \<open>Knots:20.1\<close>.
\<close>

theorem display_name_Knots_keeps_leading_slash:
  "display_name ''/Knots:20.1/'' \<noteq> ''Knots:20.1''"
  by (simp add: display_name_def replace_trailing_slash_def)

text \<open>
  C5, amended: the normalization removes the first occurrence of the literal
  \<open>/Satoshi:\<close> (a leading one in particular), then one trailing slash if there is one,
  and nothing else. So \<open>/Satoshi:24.0.1/\<close> becomes \<open>24.0.1\<close>, and \<open>/Knots:20.1/\<close>
  becomes \<open>/Knots:20.1\<close>.
\<close>

theorem display_name_normalization:
  "(\<not> js_includes (p @ ''/Satoshi'') ''/Satoshi:'' \<longrightarrow>
      display_name (p @ ''/Satoshi:'' @ s) = replace_trailing_slash (p @ s))
   \<and> display_name (''/Satoshi:'' @ s) = replace_trailing_slash s
   \<and> (\<not> js_includes v ''/Satoshi:'' \<longrightarrow> display_name v = replace_trailing_slash v)
   \<and> replace_trailing_slash (t @ ''/'') = t
   \<and> ((t = [] \<or> last t \<noteq> CHR ''/'') \<longrightarrow> replace_trailing_slash t = t)
   \<and> display_name ''/Satoshi:24.0.1/'' = ''24.0.1''
   \<and> display_name ''/Knots:20.1/'' = ''/Knots:20.1''"
proof -
  have first: "display_name (p @ ''/Satoshi:'' @ s) = replace_trailing_slash (p @ s)"
    if "\<not> js_includes (p @ ''/Satoshi'') ''/Satoshi:''"
    using replace_first_first_occurrence[of p "''/Satoshi:''" "[]" s] that
    by (simp add: display_name_def)
  have leading: "display_name (''/Satoshi:'' @ s) = replace_trailing_slash s"
    using replace_first_prefix[of "''/Satoshi:''" "[]" s] by (simp add: display_name_def)
  have absent: "display_name v = replace_trailing_slash v" if "\<not> js_includes v ''/Satoshi:''"
    using that by (simp add: display_name_def replace_first_absent)
  have slash: "replace_trailing_slash (t @ ''/'') = t"
    by (simp add: replace_trailing_slash_def)
  have no_slash: "replace_trailing_slash t = t" if "t = [] \<or> last t \<noteq> CHR ''/''"
    using that by (auto simp: replace_trailing_slash_def)
  have ex1: "display_name ''/Satoshi:24.0.1/'' = ''24.0.1''"
    by (simp add: display_name_def replace_trailing_slash_def)
  have ex2: "display_name ''/Knots:20.1/'' = ''/Knots:20.1''"
    by (simp add: display_name_def replace_trailing_slash_def)
  from first leading absent slash no_slash ex1 ex2 show ?thesis by blast
qed

theorem display_name_normalization_witness:
  "\<not> js_includes (''x'' @ ''/Satoshi'') ''/Satoshi:''
   \<and> display_name (''x'' @ ''/Satoshi:'' @ ''25.0/'') = ''x25.0''
   \<and> \<not> js_includes ''/Knots:20.1/'' ''/Satoshi:''
   \<and> display_name ''/Knots:20.1/'' = ''/Knots:20.1''
   \<and> last ''abc'' \<noteq> CHR ''/''
   \<and> replace_trailing_slash ''abc'' = ''abc''"
  using display_name_normalization[of "''x''" "''25.0/''" "''/Knots:20.1/''" "''abc''"]
  by (simp add: replace_trailing_slash_def)

section \<open>The aggregator\<close>

lemma knots_foldl:
  "knots (foldl count_node a ns) = foldl knotsCount_step (knots a) ns"
  by (induction ns arbitrary: a) (simp_all add: count_node_def knotsCount_step_def Let_def)

lemma split_foldl:
  "knots (foldl count_node a ns) + others (foldl count_node a ns) =
   knots a + others a + length ns"
  by (induction ns arbitrary: a) (simp_all add: count_node_def Let_def)

text \<open>Every node record goes into exactly one of the two counters.\<close>

lemma processNodeData_split:
  "knots (processNodeData data) + others (processNodeData data) = length (nodes data)"
  by (simp add: processNodeData_def Object_values_def split_foldl)

lemma sum_counts_append:
  "sum_counts (obj @ [(key, Num n)]) = map_option (\<lambda>s. s + n) (sum_counts obj)"
  by (induction obj rule: sum_counts.induct) (simp_all add: option.map_comp comp_def add.assoc)

lemma sum_counts_insert_index:
  "sum_counts (insert_index i (key, Num n) obj) = map_option (\<lambda>s. s + n) (sum_counts obj)"
  by (induction obj rule: sum_counts.induct)
     (simp_all add: option.map_comp comp_def add.assoc add.left_commute add.commute
        split: option.splits)

lemma sum_counts_update_own_new:
  "map_of obj key = None \<Longrightarrow> sum_counts obj = Some k \<Longrightarrow>
   sum_counts (update_own obj key (Num 1)) = Some (k + 1)"
  by (simp add: update_own_def create_own_def sum_counts_append sum_counts_insert_index
      split: option.splits)

lemma sum_counts_overwrite_own:
  "map_of obj key = Some (Num n) \<Longrightarrow> sum_counts obj = Some k \<Longrightarrow>
   sum_counts (overwrite_own obj key (Num (n + 1))) = Some (k + 1)"
proof (induction obj arbitrary: k rule: sum_counts.induct)
  case 1
  then show ?case by simp
next
  case (2 k' m obj)
  then show ?case by (auto split: if_splits)
next
  case (3 k' t obj)
  then show ?case by simp
qed

lemma sum_counts_update_own_old:
  "map_of obj key = Some (Num n) \<Longrightarrow> sum_counts obj = Some k \<Longrightarrow>
   sum_counts (update_own obj key (Num (n + 1))) = Some (k + 1)"
  using sum_counts_overwrite_own[of obj key n k] by (simp add: update_own_def)

lemma sum_counts_all_Num:
  "sum_counts obj = Some k \<Longrightarrow> map_of obj key = Some w \<Longrightarrow> \<exists>n. w = Num n"
  by (induction obj arbitrary: k rule: sum_counts.induct) (auto split: if_splits)

lemma sum_counts_count:
  assumes "\<not> prototype_name key" and "sum_counts obj = Some k"
  shows "sum_counts (set_property obj key (or_zero_plus_one (get_property obj key))) =
         Some (k + 1)"
proof (cases "map_of obj key")
  case None
  with assms sum_counts_update_own_new[of obj key k] show ?thesis
    by (simp add: set_property_def get_property_def or_zero_plus_one_def prototype_name_def)
next
  case (Some w)
  with assms(2) obtain n where "w = Num n" by (blast dest: sum_counts_all_Num)
  with Some assms sum_counts_update_own_old[of obj key n k] show ?thesis
    by (simp add: set_property_def get_property_def or_zero_plus_one_def)
qed

lemma sum_counts_foldl:
  "\<forall>n \<in> set ns. \<not> prototype_name (version n) \<Longrightarrow> sum_counts (counts a) = Some k \<Longrightarrow>
   sum_counts (counts (foldl count_node a ns)) = Some (k + length ns)"
proof (induction ns arbitrary: a k)
  case Nil
  then show ?case by simp
next
  case (Cons n ns)
  from Cons.prems have "sum_counts (counts (count_node a n)) = Some (k + 1)"
    by (simp add: count_node_def Let_def sum_counts_count)
  with Cons.IH[of "count_node a n" "k + 1"] Cons.prems(1) show ?case by simp
qed

text \<open>
  When no version string is the name of a member of \<open>Object.prototype\<close>, the tallies
  are numbers and add up to the number of node records.
\<close>

lemma processNodeData_sum_counts:
  "\<forall>n \<in> set (Object_values (nodes data)). \<not> prototype_name (version n) \<Longrightarrow>
   sum_counts (counts (processNodeData data)) = Some (length (nodes data))"
  using sum_counts_foldl[of "Object_values (nodes data)" "\<lparr>counts = [], knots = 0, others = 0\<rparr>" 0]
  by (simp add: processNodeData_def Object_values_def)

text \<open>The counts object enumerates its array-index keys first, in ascending order.\<close>

lemma counts_enumeration_order:
  "counts (processNodeData index_snapshot) = [(''1'', Num 1), (''2'', Num 1), (''b'', Num 1)]"
  by (simp add: index_snapshot_def processNodeData_def Object_values_def node_with_version_def
      count_node_def get_property_def set_property_def or_zero_plus_one_def update_own_def
      create_own_def array_index_def radix_digit_def digit_of_def numeral_value_def
      Object_prototype_functions_def)

text \<open>
  C1 fails on the code for a version string that names a member of \<open>Object.prototype\<close>.
  For the snapshot with the one node of version \<open>__proto__\<close>: the read
  \<open>counts['__proto__']\<close> gives \<open>Object.prototype\<close>, \<open>+ 1\<close> makes a string of it, and the
  assignment of a string to \<open>__proto__\<close> stores nothing. The record is counted by
  \<open>others\<close>, but the counts object stays empty: its values sum to 0, not to 1.
\<close>

theorem processNodeData_proto_not_tallied:
  "length (nodes proto_snapshot) = 1
   \<and> processNodeData proto_snapshot = \<lparr>counts = [], knots = 0, others = 1\<rparr>
   \<and> sum_counts (counts (processNodeData proto_snapshot)) = Some 0"
  by (simp add: proto_snapshot_def node_with_version_def processNodeData_def Object_values_def
      count_node_def get_property_def or_zero_plus_one_def set_property_def)

section \<open>The two marker counts\<close>

text \<open>
  C10: the marker count that the historical backfill computes for a snapshot is the
  \<open>knots\<close> count that \<open>processNodeData\<close> computes for the same snapshot.
\<close>

theorem backfill_marker_count_eq_aggregator:
  "snapshot_knotsCount data = knots (processNodeData data)"
  by (simp add: snapshot_knotsCount_def processNodeData_def knots_foldl)

section \<open>Numbers as text, and the cache\<close>

lemma digit_of_digit_char: "d < 10 \<Longrightarrow> digit_of (digit_char d) = Some d"
  by (simp add: digit_of_def digit_char_def)

lemma decimal_digits: "c \<in> set (decimal n) \<Longrightarrow> \<exists>d<10. c = digit_char d"
proof (induction n rule: decimal.induct)
  case (1 n)
  show ?case
  proof (cases "n < 10")
    case True
    with "1.prems" show ?thesis by (subst (asm) decimal.simps) auto
  next
    case False
    with "1.prems" have "c \<in> set (decimal (n div 10)) \<or> c = digit_char (n mod 10)"
      by (subst (asm) decimal.simps) auto
    with "1.IH" False show ?thesis by (auto intro: exI[of _ "n mod 10"])
  qed
qed

lemma decimal_nonempty: "decimal n \<noteq> []"
  by (subst decimal.simps) simp

lemma numeral_value_decimal_aux:
  "foldl (\<lambda>a c. 10 * a + (case digit_of c of None \<Rightarrow> 0 | Some d \<Rightarrow> d)) a (decimal n) =
   a * 10 ^ length (decimal n) + n"
proof (induction n arbitrary: a rule: decimal.induct)
  case (1 n)
  show ?case
  proof (cases "n < 10")
    case True
    then have "decimal n = [digit_char n]" by (subst decimal.simps) simp
    with True show ?thesis by (simp add: digit_of_digit_char)
  next
    case False
    then have "decimal n = decimal (n div 10) @ [digit_char (n mod 10)]"
      by (subst decimal.simps) simp
    with False "1.IH"[of "a"] show ?thesis
      by (simp add: digit_of_digit_char algebra_simps)
  qed
qed

lemma numeral_value_decimal: "numeral_value 10 (decimal n) = n"
  by (simp add: numeral_value_def numeral_value_decimal_aux)

lemma decimal_radix_digit: "c \<in> set (decimal n) \<Longrightarrow> radix_digit 10 c"
  using decimal_digits[of c n] by (auto simp: radix_digit_def digit_of_digit_char)

lemma radix_digit_10_plain:
  assumes "radix_digit 10 c"
  shows "\<not> white_space c" "c \<noteq> CHR ''-''" "c \<noteq> CHR ''+''" "c \<noteq> CHR ''x''" "c \<noteq> CHR ''X''"
  using assms by (auto simp: radix_digit_def digit_of_def white_space_def split: if_splits)

lemma decimal_not_hex: "take 2 (decimal n) \<noteq> ''0x''" "take 2 (decimal n) \<noteq> ''0X''"
proof -
  have "c \<noteq> CHR ''x'' \<and> c \<noteq> CHR ''X''" if "c \<in> set (take 2 (decimal n))" for c
    using that radix_digit_10_plain(4,5)[OF decimal_radix_digit[of c n]]
    by (auto dest: in_set_takeD)
  then show "take 2 (decimal n) \<noteq> ''0x''" "take 2 (decimal n) \<noteq> ''0X''"
    by fastforce+
qed

lemma parse_decimal:
  "takeWhile (radix_digit 10) (decimal n) = decimal n"
  "dropWhile white_space (decimal n) = decimal n"
  "hd (decimal n) \<noteq> CHR ''-''" "hd (decimal n) \<noteq> CHR ''+''"
proof -
  have hd_digit: "radix_digit 10 (hd (decimal n))"
    by (rule decimal_radix_digit[of _ n]) (simp add: decimal_nonempty)
  show "takeWhile (radix_digit 10) (decimal n) = decimal n"
    by (simp add: takeWhile_eq_all_conv decimal_radix_digit)
  show "dropWhile white_space (decimal n) = decimal n"
    using radix_digit_10_plain(1)[OF hd_digit] by (simp add: dropWhile_eq_self_iff)
  show "hd (decimal n) \<noteq> CHR ''-''" "hd (decimal n) \<noteq> CHR ''+''"
    using radix_digit_10_plain(2,3)[OF hd_digit] by simp_all
qed

lemma parseInt_decimal: "parseInt (decimal n) = Some (int n)"
  by (simp add: parseInt_def Let_def parse_decimal decimal_not_hex decimal_nonempty
      numeral_value_decimal)

lemma parseInt_minus_decimal: "parseInt (CHR ''-'' # decimal n) = Some (- int n)"
  by (simp add: parseInt_def Let_def parse_decimal decimal_not_hex decimal_nonempty
      numeral_value_decimal white_space_def)

text \<open>\<open>parseInt\<close> reads back what \<open>toString\<close> wrote.\<close>

lemma parseInt_Number_toString: "parseInt (Number_toString i) = Some i"
  by (simp add: Number_toString_def parseInt_decimal parseInt_minus_decimal)

lemma Number_toString_nonempty: "Number_toString i \<noteq> []"
  by (simp add: Number_toString_def decimal_nonempty)

lemma fresh_cache_stored:
  "json \<noteq> [] \<Longrightarrow>
   fresh_cache (Some json) (Some (Number_toString T)) now D = (if now - T < D then Some json else None)"
  by (simp add: fresh_cache_def parseInt_Number_toString Number_toString_nonempty)

lemma nodeData_cache_stored:
  "json \<noteq> [] \<Longrightarrow>
   nodeData_cache (store_nodeData st json T) now =
     (if now - T < 21 * 60 * 1000 then Some json else None)"
  by (simp add: nodeData_cache_def store_nodeData_def fresh_cache_stored CACHE_DURATION_nodeData_def)

lemma snapshots_cache_stored:
  "json \<noteq> [] \<Longrightarrow>
   snapshots_cache (store_snapshots st json T) now =
     (if now - T < 24 * 60 * 60 * 1000 then Some json else None)"
  by (simp add: snapshots_cache_def store_snapshots_def fresh_cache_stored CACHE_DURATION_snapshots_def)

text \<open>
  C7: a cache entry written at time \<open>T\<close> (a non-empty text with the time stamp
  \<open>T.toString()\<close>) is read as valid exactly while \<open>now - T < CACHE_DURATION\<close>: still at
  \<open>T + D - 1\<close>, no longer at \<open>T + D\<close>. The duration is 21 minutes for the latest snapshot
  and 24 hours for the historical series.
\<close>

theorem cache_expiry_boundary:
  assumes "json \<noteq> []"
  shows "(fresh_cache (Some json) (Some (Number_toString T)) now D = Some json \<longleftrightarrow> now - T < D)
       \<and> (fresh_cache (Some json) (Some (Number_toString T)) now D = None \<longleftrightarrow> \<not> now - T < D)
       \<and> fresh_cache (Some json) (Some (Number_toString T)) (T + D - 1) D = Some json
       \<and> fresh_cache (Some json) (Some (Number_toString T)) (T + D) D = None
       \<and> (nodeData_cache (store_nodeData st json T) now = Some json \<longleftrightarrow> now - T < 21 * 60 * 1000)
       \<and> nodeData_cache (store_nodeData st json T) (T + 21 * 60 * 1000 - 1) = Some json
       \<and> nodeData_cache (store_nodeData st json T) (T + 21 * 60 * 1000) = None
       \<and> (snapshots_cache (store_snapshots st json T) now = Some json
            \<longleftrightarrow> now - T < 24 * 60 * 60 * 1000)
       \<and> snapshots_cache (store_snapshots st json T) (T + 24 * 60 * 60 * 1000 - 1) = Some json
       \<and> snapshots_cache (store_snapshots st json T) (T + 24 * 60 * 60 * 1000) = None"
  using assms
  by (simp add: fresh_cache_stored nodeData_cache_stored snapshots_cache_stored)

theorem cache_expiry_boundary_witness:
  "''{}'' \<noteq> []
   \<and> nodeData_cache (store_nodeData Map.empty ''{}'' 1700000000000) 1700001259999 = Some ''{}''
   \<and> nodeData_cache (store_nodeData Map.empty ''{}'' 1700000000000) 1700001260000 = None
   \<and> snapshots_cache (store_snapshots Map.empty ''{}'' 1700000000000) 1700086399999 = Some ''{}''
   \<and> snapshots_cache (store_snapshots Map.empty ''{}'' 1700000000000) 1700086400000 = None"
  using cache_expiry_boundary[of "''{}''" 1700000000000 0 0 Map.empty] by simp

section \<open>The table\<close>

lemma sorted_desc:
  "sorted_wrt (\<lambda>a b. snd a \<ge> snd b) (sort_key (\<lambda>(v, c). - c) (vc :: (string \<times> int) list))"
proof -
  have "sorted (map (\<lambda>(v, c). - c) (sort_key (\<lambda>(v, c). - c) vc))" by (rule sorted_sort_key)
  then show ?thesis by (simp add: sorted_wrt_map case_prod_unfold)
qed

lemma stable_desc:
  "filter (\<lambda>e. snd e = c) (sort_key (\<lambda>(v, c). - c) (vc :: (string \<times> int) list)) =
   filter (\<lambda>e. snd e = c) vc"
  using sort_key_stable[of "\<lambda>(v, c). - c" "- c" vc] by (simp add: case_prod_unfold)

text \<open>
  C6: the table has \<open>min n 21\<close> rows for \<open>n\<close> versions, so 21 rows for 30 versions. Its
  counts descend. The rows with one given count come in the order in which the entries
  with that count are enumerated in \<open>versionCounts\<close>: up to the display names and the cut
  after 21 rows, the table is the one stable rearrangement of the entries by descending
  count.
\<close>

theorem sortedVersions_table:
  "length (sortedVersions vc) = min (length vc) 21
   \<and> (length vc = 30 \<longrightarrow> length (sortedVersions vc) = 21)
   \<and> sorted_wrt (\<ge>) (map snd (sortedVersions vc))
   \<and> prefix (filter (\<lambda>r. snd r = c) (sortedVersions vc))
        (map (\<lambda>(v, c). (display_name v, c)) (filter (\<lambda>e. snd e = c) vc))
   \<and> (\<exists>ys. mset ys = mset vc
         \<and> sorted_wrt (\<lambda>a b. snd a \<ge> snd b) ys
         \<and> (\<forall>k. filter (\<lambda>e. snd e = k) ys = filter (\<lambda>e. snd e = k) vc)
         \<and> sortedVersions vc = map (\<lambda>(v, c). (display_name v, c)) (take 21 ys))"
proof -
  let ?ys = "sort_key (\<lambda>(v, c). - c) vc"
  let ?row = "\<lambda>(v, c). (display_name v, c :: int)"
  have len: "length (sortedVersions vc) = min (length vc) 21"
    by (simp add: sortedVersions_def min.commute)
  have "sorted_wrt (\<lambda>a b. snd a \<ge> snd b) (take 21 ?ys)"
    using sorted_desc[of vc] by (rule sorted_wrt_take)
  then have sorted: "sorted_wrt (\<ge>) (map snd (sortedVersions vc))"
    by (simp add: sortedVersions_def sorted_wrt_map case_prod_unfold)
  have "filter (\<lambda>r. snd r = c) (sortedVersions vc) =
        map ?row (filter (\<lambda>e. snd e = c) (take 21 ?ys))"
    by (simp add: sortedVersions_def filter_map comp_def case_prod_unfold)
  moreover have "prefix (filter (\<lambda>e. snd e = c) (take 21 ?ys)) (filter (\<lambda>e. snd e = c) ?ys)"
    by (rule filter_mono_prefix) (rule take_is_prefix)
  ultimately have stable: "prefix (filter (\<lambda>r. snd r = c) (sortedVersions vc))
        (map ?row (filter (\<lambda>e. snd e = c) vc))"
    by (simp add: stable_desc map_mono_prefix)
  have ex: "\<exists>ys. mset ys = mset vc
         \<and> sorted_wrt (\<lambda>a b. snd a \<ge> snd b) ys
         \<and> (\<forall>k. filter (\<lambda>e. snd e = k) ys = filter (\<lambda>e. snd e = k) vc)
         \<and> sortedVersions vc = map ?row (take 21 ys)"
    by (rule exI[of _ ?ys]) (simp add: sorted_desc stable_desc sortedVersions_def)
  from len sorted stable ex show ?thesis by simp
qed

lemma sortedVersions_thirty:
  "sortedVersions thirty_versions =
      [(''27.0.0'', 5200), (''26.0.0'', 3100), (''25.0.0'', 3100), (''24.0.1'', 2400),
       (''22.0.0'', 1500), (''27.1.0/Knots:20240801'', 900), (''23.0.0'', 900),
       (''0.21.1'', 700), (''0.21.0'', 700), (''0.20.1'', 300), (''0.20.0'', 120),
       (''0.19.1'', 110), (''0.19.0.1'', 100), (''0.18.1'', 95), (''0.18.0'', 90),
       (''0.17.1'', 80), (''0.17.0'', 70), (''0.16.3'', 60), (''0.16.0'', 50),
       (''0.15.1'', 40), (''0.15.0'', 30)]"
  by (simp add: thirty_versions_def sortedVersions_def display_name_def replace_trailing_slash_def)

theorem sortedVersions_table_witness:
  "length thirty_versions = 30
   \<and> length (sortedVersions thirty_versions) = 21
   \<and> sortedVersions thirty_versions =
      [(''27.0.0'', 5200), (''26.0.0'', 3100), (''25.0.0'', 3100), (''24.0.1'', 2400),
       (''22.0.0'', 1500), (''27.1.0/Knots:20240801'', 900), (''23.0.0'', 900),
       (''0.21.1'', 700), (''0.21.0'', 700), (''0.20.1'', 300), (''0.20.0'', 120),
       (''0.19.1'', 110), (''0.19.0.1'', 100), (''0.18.1'', 95), (''0.18.0'', 90),
       (''0.17.1'', 80), (''0.17.0'', 70), (''0.16.3'', 60), (''0.16.0'', 50),
       (''0.15.1'', 40), (''0.15.0'', 30)]"
proof -
  have thirty: "length thirty_versions = 30" by (simp add: thirty_versions_def)
  with sortedVersions_table[of thirty_versions] have "length (sortedVersions thirty_versions) = 21"
    by blast
  with thirty sortedVersions_thirty show ?thesis by simp
qed

section \<open>The compact codec\<close>

lemma expect_append: "expect lit (lit @ s) = Some s"
  by (simp add: expect_def)

lemma read_integer_Number_toString:
  assumes "rest = [] \<or> \<not> radix_digit 10 (hd rest)"
  shows "read_integer (Number_toString i @ rest) = Some (i, rest)"
proof -
  have tw: "takeWhile (radix_digit 10) (decimal n @ rest) = decimal n" for n
    using assms by (cases rest) (auto simp: takeWhile_append decimal_radix_digit takeWhile_eq_all_conv)
  have dw: "dropWhile (radix_digit 10) (decimal n @ rest) = rest" for n
    using assms by (cases rest) (auto simp: dropWhile_append decimal_radix_digit)
  have hd: "hd (decimal n @ rest) \<noteq> CHR ''-''" for n
    using parse_decimal(3)[of n] decimal_nonempty[of n] by simp
  show ?thesis
    by (simp add: Number_toString_def read_integer_def Let_def tw dw parse_decimal(3)
        decimal_nonempty numeral_value_decimal)
qed

lemma parse_point_stringify:
  assumes "rest = [] \<or> \<not> radix_digit 10 (hd rest)"
  shows "parse_point (stringify_point p @ rest) = Some (p, rest)"
proof -
  let ?k = "Number_toString (int (point_knotsCount p))"
  have not_digit: "\<not> radix_digit 10 CHR '',''" "\<not> radix_digit 10 CHR ''}''"
    by (simp_all add: radix_digit_def digit_of_def)
  have r1: \<open>read_integer (Number_toString (point_timestamp p) @
          '',"knotsCount":'' @ ?k @ ''}'' @ rest) =
        Some (point_timestamp p, '',"knotsCount":'' @ ?k @ ''}'' @ rest)\<close>
    by (rule read_integer_Number_toString) (simp add: not_digit)
  have r2: "read_integer (?k @ ''}'' @ rest) = Some (int (point_knotsCount p), ''}'' @ rest)"
    by (rule read_integer_Number_toString) (simp add: not_digit)
  have e1: \<open>expect ''{"timestamp":'' (stringify_point p @ rest) =
      Some (Number_toString (point_timestamp p) @ '',"knotsCount":'' @ ?k @ ''}'' @ rest)\<close>
    unfolding stringify_point_def append_assoc by (rule expect_append)
  have e2: \<open>expect '',"knotsCount":'' ('',"knotsCount":'' @ ?k @ ''}'' @ rest) =
      Some (?k @ ''}'' @ rest)\<close>
    by (rule expect_append)
  have e3: "expect ''}'' (''}'' @ rest) = Some rest"
    by (rule expect_append)
  show ?thesis
    unfolding parse_point_def e1 option.case r1 prod.case e2 r2 e3 by simp
qed

lemma stringify_point_nonempty: "stringify_point p \<noteq> []"
  by (simp add: stringify_point_def)

lemma parse_items_join:
  "length ps < n \<Longrightarrow>
   parse_items n (join_commas (map stringify_point (p # ps)) @ '']'') = Some (p # ps)"
proof (induction ps arbitrary: p n)
  case Nil
  then obtain m where "n = Suc m" by (cases n) auto
  moreover have "parse_point (stringify_point p @ '']'') = Some (p, '']'')"
    by (rule parse_point_stringify) (simp add: radix_digit_def digit_of_def)
  ultimately show ?case by simp
next
  case (Cons q ps)
  then obtain m where n: "n = Suc m" "length ps < m" by (cases n) auto
  let ?rest = "'','' @ join_commas (map stringify_point (q # ps)) @ '']''"
  have pp: "parse_point (stringify_point p @ ?rest) = Some (p, ?rest)"
    by (rule parse_point_stringify) (simp add: radix_digit_def digit_of_def)
  have ex: "expect '','' ?rest = Some (join_commas (map stringify_point (q # ps)) @ '']'')"
    by (rule expect_append)
  have ne: "?rest \<noteq> '']''" by simp
  from Cons.IH[OF n(2), of q] pp ex ne n(1) show ?case by simp
qed

lemma join_commas_length:
  "length qs < length (join_commas (map stringify_point (p # qs)) @ '']'')"
proof (induction qs arbitrary: p)
  case Nil
  then show ?case by simp
next
  case (Cons q qs)
  from Cons[of q] show ?case by simp
qed

text \<open>The parser reads back every series the printer wrote.\<close>

lemma compact_roundtrip: "compact_parse (compact_stringify ps) = Inr ps"
proof (cases ps)
  case Nil
  then show ?thesis by (simp add: compact_parse_def compact_stringify_def expect_def)
next
  case (Cons p qs)
  let ?body = "join_commas (map stringify_point (p # qs)) @ '']''"
  have ex: "expect ''['' (compact_stringify ps) = Some ?body"
    unfolding compact_stringify_def Cons by (rule expect_append)
  have ne: "?body \<noteq> '']''"
    using stringify_point_nonempty[of p] by (cases qs) (auto simp: append_eq_Cons_conv)
  have "parse_items (length ?body) ?body = Some (p # qs)"
    by (rule parse_items_join) (rule join_commas_length)
  with ex ne Cons show ?thesis
    unfolding compact_parse_def by (simp del: join_commas.simps parse_items.simps)
qed

lemma compact_stringify_nonempty: "compact_stringify ps \<noteq> []"
  by (simp add: compact_stringify_def)

section \<open>The percentage column\<close>


section \<open>The loop of the backfill\<close>

lemma backfill_loop_stop:
  "nextUrl st = None \<or> nextUrl st = Some [] \<or> \<not> apiCallCount st < MAX_API_CALLS \<Longrightarrow>
   backfill_loop e st = (None, st)"
  by (subst backfill_loop.simps) (auto split: option.splits)

lemma backfill_loop_listing_fails:
  "nextUrl st = Some u \<Longrightarrow> u \<noteq> [] \<Longrightarrow> apiCallCount st < MAX_API_CALLS \<Longrightarrow>
   axios_get_listing e (length (requests st)) u = Inl err \<Longrightarrow>
   backfill_loop e st =
     (Some err, st\<lparr>apiCallCount := apiCallCount st + 1, requests := requests st @ [GetListing u]\<rparr>)"
  by (subst backfill_loop.simps) simp

lemma backfill_loop_detail_fails:
  "nextUrl st = Some u \<Longrightarrow> u \<noteq> [] \<Longrightarrow> apiCallCount st < MAX_API_CALLS \<Longrightarrow>
   axios_get_listing e (length (requests st)) u = Inr response \<Longrightarrow>
   filter_snapshots (lastTimestamp st) (results response) = (kept, l) \<Longrightarrow>
   fetch_details e kept (requests st @ [GetListing u]) (collected st) = (Some err, reqs, pts) \<Longrightarrow>
   backfill_loop e st =
     (Some err, st\<lparr>apiCallCount := apiCallCount st + 1, collected := pts,
                   lastTimestamp := l, requests := reqs, listed := listed st @ results response\<rparr>)"
  by (subst backfill_loop.simps) simp

lemma backfill_loop_continues:
  "nextUrl st = Some u \<Longrightarrow> u \<noteq> [] \<Longrightarrow> apiCallCount st < MAX_API_CALLS \<Longrightarrow>
   axios_get_listing e (length (requests st)) u = Inr response \<Longrightarrow>
   filter_snapshots (lastTimestamp st) (results response) = (kept, l) \<Longrightarrow>
   fetch_details e kept (requests st @ [GetListing u]) (collected st) = (None, reqs, pts) \<Longrightarrow>
   backfill_loop e st =
     backfill_loop e (st\<lparr>apiCallCount := apiCallCount st + 1, collected := pts,
                   lastTimestamp := l, requests := reqs, listed := listed st @ results response,
                   nextUrl := next_url response\<rparr>)"
  by (subst backfill_loop.simps) simp

lemma backfill_loop_rule:
  assumes stop: "\<And>st. nextUrl st = None \<or> nextUrl st = Some [] \<or> \<not> apiCallCount st < MAX_API_CALLS
            \<Longrightarrow> P st (None, st)"
    and listing_fails: "\<And>st u err.
          nextUrl st = Some u \<Longrightarrow> u \<noteq> [] \<Longrightarrow> apiCallCount st < MAX_API_CALLS \<Longrightarrow>
          axios_get_listing e (length (requests st)) u = Inl err \<Longrightarrow>
          P st (Some err, st\<lparr>apiCallCount := apiCallCount st + 1,
                              requests := requests st @ [GetListing u]\<rparr>)"
    and detail_fails: "\<And>st u response kept l err reqs pts.
          nextUrl st = Some u \<Longrightarrow> u \<noteq> [] \<Longrightarrow> apiCallCount st < MAX_API_CALLS \<Longrightarrow>
          axios_get_listing e (length (requests st)) u = Inr response \<Longrightarrow>
          filter_snapshots (lastTimestamp st) (results response) = (kept, l) \<Longrightarrow>
          fetch_details e kept (requests st @ [GetListing u]) (collected st) = (Some err, reqs, pts) \<Longrightarrow>
          P st (Some err, st\<lparr>apiCallCount := apiCallCount st + 1, collected := pts,
                              lastTimestamp := l, requests := reqs,
                              listed := listed st @ results response\<rparr>)"
    and continues: "\<And>st u response kept l reqs pts r.
          nextUrl st = Some u \<Longrightarrow> u \<noteq> [] \<Longrightarrow> apiCallCount st < MAX_API_CALLS \<Longrightarrow>
          axios_get_listing e (length (requests st)) u = Inr response \<Longrightarrow>
          filter_snapshots (lastTimestamp st) (results response) = (kept, l) \<Longrightarrow>
          fetch_details e kept (requests st @ [GetListing u]) (collected st) = (None, reqs, pts) \<Longrightarrow>
          P (st\<lparr>apiCallCount := apiCallCount st + 1, collected := pts,
                lastTimestamp := l, requests := reqs, listed := listed st @ results response,
                nextUrl := next_url response\<rparr>) r \<Longrightarrow>
          P st r"
  shows "P st (backfill_loop e st)"
proof (induction "MAX_API_CALLS - apiCallCount st" arbitrary: st rule: less_induct)
  case less
  show ?case
  proof (cases "nextUrl st = None \<or> nextUrl st = Some [] \<or> \<not> apiCallCount st < MAX_API_CALLS")
    case True
    then show ?thesis by (simp add: backfill_loop_stop stop)
  next
    case False
    then obtain u where u: "nextUrl st = Some u" "u \<noteq> []" "apiCallCount st < MAX_API_CALLS"
      by auto
    show ?thesis
    proof (cases "axios_get_listing e (length (requests st)) u")
      case (Inl err)
      from listing_fails[OF u Inl] show ?thesis
        by (simp add: backfill_loop_listing_fails[OF u Inl])
    next
      case (Inr response)
      obtain kept l where f: "filter_snapshots (lastTimestamp st) (results response) = (kept, l)"
        by (cases "filter_snapshots (lastTimestamp st) (results response)")
      obtain failure reqs pts where
        d: "fetch_details e kept (requests st @ [GetListing u]) (collected st) = (failure, reqs, pts)"
        by (cases "fetch_details e kept (requests st @ [GetListing u]) (collected st)")
      show ?thesis
      proof (cases failure)
        case None
        let ?st' = "st\<lparr>apiCallCount := apiCallCount st + 1, collected := pts,
                lastTimestamp := l, requests := reqs, listed := listed st @ results response,
                nextUrl := next_url response\<rparr>"
        have "P ?st' (backfill_loop e ?st')"
          using u(3) by (intro less) simp
        then have "P st (backfill_loop e ?st')"
          using d None by (intro continues[OF u Inr f]) simp_all
        then show ?thesis
          using d None by (simp add: backfill_loop_continues[OF u Inr f])
      next
        case (Some err)
        with d have d': "fetch_details e kept (requests st @ [GetListing u]) (collected st) =
            (Some err, reqs, pts)" by simp
        from detail_fails[OF u Inr f d'] show ?thesis
          by (simp add: backfill_loop_detail_fails[OF u Inr f d'])
      qed
    qed
  qed
qed

lemma listing_fetches_append:
  "listing_fetches (xs @ ys) = listing_fetches xs + listing_fetches ys"
  by (simp add: listing_fetches_def)

lemma fetch_details_listing_fetches:
  "fetch_details e ss reqs pts = (res, reqs', pts') \<Longrightarrow>
   listing_fetches reqs' = listing_fetches reqs"
proof (induction ss arbitrary: reqs pts)
  case Nil
  then show ?case by simp
next
  case (Cons s ss)
  then show ?case
    by (cases "axios_get_snapshot e (length reqs) (url s)")
       (auto simp: listing_fetches_append listing_fetches_def)
qed

lemma all_ok_snoc:
  "all_ok e (reqs @ [r]) \<longleftrightarrow> all_ok e reqs \<and> \<not> request_failed e (length reqs) r"
  by (auto simp: all_ok_def nth_append less_Suc_eq)

lemma fetch_details_all_ok:
  "fetch_details e ss reqs pts = (None, reqs', pts') \<Longrightarrow> all_ok e reqs \<Longrightarrow> all_ok e reqs'"
proof (induction ss arbitrary: reqs pts)
  case Nil
  then show ?case by simp
next
  case (Cons s ss)
  show ?case
  proof (cases "axios_get_snapshot e (length reqs) (url s)")
    case (Inl err)
    with Cons.prems show ?thesis by simp
  next
    case (Inr data)
    with Cons.prems have "all_ok e (reqs @ [GetSnapshot (url s)])"
      by (simp add: all_ok_snoc request_failed_def)
    with Cons.IH Cons.prems Inr show ?thesis by simp
  qed
qed

lemma backfill_loop_counts:
  "listing_fetches (requests (snd (backfill_loop e st))) + apiCallCount st =
     listing_fetches (requests st) + apiCallCount (snd (backfill_loop e st))
   \<and> (apiCallCount st \<le> MAX_API_CALLS \<longrightarrow> apiCallCount (snd (backfill_loop e st)) \<le> MAX_API_CALLS)"
  by (rule backfill_loop_rule[where P = "\<lambda>st r.
        listing_fetches (requests (snd r)) + apiCallCount st =
          listing_fetches (requests st) + apiCallCount (snd r)
        \<and> (apiCallCount st \<le> MAX_API_CALLS \<longrightarrow> apiCallCount (snd r) \<le> MAX_API_CALLS)"])
     (auto simp: listing_fetches_append listing_fetches_def[of "[_]"]
           dest!: fetch_details_listing_fetches)

lemma backfill_loop_all_ok:
  "all_ok e (requests st) \<Longrightarrow> fst (backfill_loop e st) = None \<Longrightarrow>
   all_ok e (requests (snd (backfill_loop e st)))"
  by (rule backfill_loop_rule[where P = "\<lambda>st r.
        all_ok e (requests st) \<longrightarrow> fst r = None \<longrightarrow> all_ok e (requests (snd r))", rule_format])
     (auto simp: all_ok_snoc request_failed_def dest!: fetch_details_all_ok)

lemma all_served_snoc:
  "all_served e (reqs @ [r]) \<longleftrightarrow> all_served e reqs \<and> request_served e (length reqs) r"
  by (auto simp: all_served_def nth_append less_Suc_eq)

lemma all_served_prefix:
  assumes "prefix xs ys" and "all_served e ys"
  shows "all_served e xs"
proof -
  from assms(1) obtain zs where ys: "ys = xs @ zs" by (auto simp: prefix_def)
  have "request_served e k (xs ! k)" if "k < length xs" for k
    using assms(2) that unfolding all_served_def ys
    by (auto simp: nth_append dest: spec[of _ k])
  then show ?thesis by (simp add: all_served_def)
qed

lemma fetch_details_prefix:
  "fetch_details e ss reqs pts = (res, reqs', pts') \<Longrightarrow> prefix reqs reqs'"
proof (induction ss arbitrary: reqs pts)
  case Nil
  then show ?case by simp
next
  case (Cons s ss)
  show ?case
  proof (cases "axios_get_snapshot e (length reqs) (url s)")
    case (Inl err)
    with Cons.prems show ?thesis by auto
  next
    case (Inr data)
    with Cons.prems Cons.IH have "prefix (reqs @ [GetSnapshot (url s)]) reqs'" by simp
    then show ?thesis by (rule append_prefixD)
  qed
qed

lemma fetch_details_not_served:
  "fetch_details e ss reqs pts = (Some err, reqs', pts') \<Longrightarrow> \<not> all_served e reqs'"
proof (induction ss arbitrary: reqs pts)
  case Nil
  then show ?case by simp
next
  case (Cons s ss)
  show ?case
  proof (cases "axios_get_snapshot e (length reqs) (url s)")
    case (Inl err')
    with Cons.prems show ?thesis by (auto simp: all_served_snoc request_served_def)
  next
    case (Inr data)
    with Cons.prems Cons.IH show ?thesis by simp
  qed
qed

lemma backfill_loop_all_served:
  "prefix (requests st) (requests (snd (backfill_loop e st)))
   \<and> (all_served e (requests (snd (backfill_loop e st))) \<longrightarrow>
        fst (backfill_loop e st) = None
        \<and> ((\<exists>u. nextUrl st = Some u \<and> u \<noteq> []) \<and> apiCallCount st \<le> MAX_API_CALLS
             \<longrightarrow> apiCallCount (snd (backfill_loop e st)) = MAX_API_CALLS))"
proof (rule backfill_loop_rule[where P = "\<lambda>st r.
     prefix (requests st) (requests (snd r))
     \<and> (all_served e (requests (snd r)) \<longrightarrow>
          fst r = None
          \<and> ((\<exists>u. nextUrl st = Some u \<and> u \<noteq> []) \<and> apiCallCount st \<le> MAX_API_CALLS
               \<longrightarrow> apiCallCount (snd r) = MAX_API_CALLS))"], goal_cases)
  case (1 st)
  then show ?case by auto
next
  case (2 st u err)
  then show ?case by (simp add: all_served_snoc request_served_def)
next
  case (3 st u response kept l err reqs pts)
  from fetch_details_prefix[OF 3(6)] have "prefix (requests st) reqs"
    by (rule append_prefixD)
  with fetch_details_not_served[OF 3(6)] show ?case by simp
next
  case (4 st u response kept l reqs pts r)
  from fetch_details_prefix[OF 4(6)] have p1: "prefix (requests st @ [GetListing u]) reqs" .
  from 4(7) have p2: "prefix reqs (requests (snd r))" by simp
  from p1 p2 have p3: "prefix (requests st @ [GetListing u]) (requests (snd r))"
    by (rule prefix_order.trans)
  then have p4: "prefix (requests st) (requests (snd r))" by (rule append_prefixD)
  have "fst r = None \<and> apiCallCount (snd r) = MAX_API_CALLS"
    if served: "all_served e (requests (snd r))"
  proof -
    from all_served_prefix[OF p3 served] 4(4)
    obtain v where "next_url response = Some v" "v \<noteq> []"
      by (auto simp: all_served_snoc request_served_def split: option.splits)
    with 4(3,7) served show ?thesis by simp
  qed
  with p4 show ?case by blast
qed


section \<open>Runs of the backfill\<close>

lemma snapshots_cache_empty: "snapshots_cache Map.empty now = None"
  by (simp add: snapshots_cache_def fresh_cache_def)

lemma fetchHistoricalData_miss:
  "snapshots_cache (localStorage w) now = None \<Longrightarrow>
   snd (fetchHistoricalData e now w) = requests (snd (backfill_loop e initial_backfill))"
  by (simp add: fetchHistoricalData_def Let_def split: prod.splits option.splits)

lemma fetchHistoricalData_hit:
  "snapshots_cache (localStorage w) now = Some cached \<Longrightarrow> snd (fetchHistoricalData e now w) = []"
  by (simp add: fetchHistoricalData_def split: sum.splits)

lemma knots_snapshot_count: "snapshot_knotsCount knots_snapshot = 1"
  by (simp add: snapshot_knotsCount_def knots_snapshot_def Object_values_def knotsCount_step_def
      node_with_version_def)

lemma run_endless:
  "fetchHistoricalData env_endless now world0 =
     (world0\<lparr>localStorage := store_snapshots Map.empty
                 (compact_stringify [\<lparr>point_timestamp = 1700000000, point_knotsCount = 1\<rparr>]) now,
             app := initial_app\<lparr>historicalData :=
                 [\<lparr>point_timestamp = 1700000000, point_knotsCount = 1\<rparr>],
                 isLoadingHistorical := False\<rparr>\<rparr>,
      [GetListing ''https://bitnodes.io/api/v1/snapshots/'',
       GetSnapshot ''https://bitnodes.io/api/v1/snapshots/1700000000/'',
       GetListing ''https://bitnodes.io/api/v1/snapshots/?page=2'',
       GetListing ''https://bitnodes.io/api/v1/snapshots/?page=2'',
       GetListing ''https://bitnodes.io/api/v1/snapshots/?page=2'',
       GetListing ''https://bitnodes.io/api/v1/snapshots/?page=2'',
       GetListing ''https://bitnodes.io/api/v1/snapshots/?page=2'',
       GetListing ''https://bitnodes.io/api/v1/snapshots/?page=2'',
       GetListing ''https://bitnodes.io/api/v1/snapshots/?page=2'',
       GetListing ''https://bitnodes.io/api/v1/snapshots/?page=2'',
       GetListing ''https://bitnodes.io/api/v1/snapshots/?page=2'',
       GetListing ''https://bitnodes.io/api/v1/snapshots/?page=2'',
       GetListing ''https://bitnodes.io/api/v1/snapshots/?page=2''])"
  by (simp add: fetchHistoricalData_def snapshots_cache_empty world0_def backfill_loop.simps
      initial_backfill_def env_endless_def endless_page_def summary_def MAX_API_CALLS_def
      not_lastTimestamp_def ONE_WEEK_MS_def knots_snapshot_count Let_def)

text \<open>
  C3: no run fetches more than 12 listing pages. A run that finds no fresh cache, and in
  which every request it makes is answered, every listing page with a non-empty \<open>next\<close>
  URL, fetches exactly 12 listing pages.
\<close>

theorem backfill_page_cap:
  "listing_fetches (snd (fetchHistoricalData e now w)) \<le> 12
   \<and> (snapshots_cache (localStorage w) now = None
       \<and> (\<forall>k<length (snd (fetchHistoricalData e now w)).
             request_served e k (snd (fetchHistoricalData e now w) ! k))
      \<longrightarrow> listing_fetches (snd (fetchHistoricalData e now w)) = 12)"
proof -
  let ?st = "snd (backfill_loop e initial_backfill)"
  have count: "listing_fetches (requests ?st) = apiCallCount ?st" and cap: "apiCallCount ?st \<le> 12"
    using backfill_loop_counts[of e initial_backfill]
    by (simp_all add: initial_backfill_def MAX_API_CALLS_def listing_fetches_def)
  have le: "listing_fetches (snd (fetchHistoricalData e now w)) \<le> 12"
  proof (cases "snapshots_cache (localStorage w) now")
    case None
    with count cap show ?thesis by (simp add: fetchHistoricalData_miss)
  next
    case (Some cached)
    then show ?thesis by (simp add: fetchHistoricalData_hit listing_fetches_def)
  qed
  have eq: "listing_fetches (snd (fetchHistoricalData e now w)) = 12"
    if miss: "snapshots_cache (localStorage w) now = None"
      and served: "\<forall>k<length (snd (fetchHistoricalData e now w)).
             request_served e k (snd (fetchHistoricalData e now w) ! k)"
  proof -
    from served miss have "all_served e (requests ?st)"
      by (simp add: fetchHistoricalData_miss all_served_def)
    with backfill_loop_all_served[of initial_backfill e]
    have "apiCallCount ?st = 12" by (simp add: initial_backfill_def MAX_API_CALLS_def)
    with count miss show ?thesis by (simp add: fetchHistoricalData_miss)
  qed
  from le eq show ?thesis by blast
qed

lemma run_only:
  "fetchHistoricalData env_only now world0 =
     (world0\<lparr>localStorage := store_snapshots Map.empty
                 (compact_stringify [\<lparr>point_timestamp = 1700000000, point_knotsCount = 1\<rparr>]) now,
             app := initial_app\<lparr>historicalData :=
                 [\<lparr>point_timestamp = 1700000000, point_knotsCount = 1\<rparr>],
                 isLoadingHistorical := False\<rparr>\<rparr>,
      [GetListing ''https://bitnodes.io/api/v1/snapshots/'',
       GetSnapshot ''https://bitnodes.io/api/v1/snapshots/1700000000/'',
       GetListing ''https://bitnodes.io/api/v1/snapshots/?page=2'',
       GetListing ''https://bitnodes.io/api/v1/snapshots/?page=2'',
       GetListing ''https://bitnodes.io/api/v1/snapshots/?page=2'',
       GetListing ''https://bitnodes.io/api/v1/snapshots/?page=2'',
       GetListing ''https://bitnodes.io/api/v1/snapshots/?page=2'',
       GetListing ''https://bitnodes.io/api/v1/snapshots/?page=2'',
       GetListing ''https://bitnodes.io/api/v1/snapshots/?page=2'',
       GetListing ''https://bitnodes.io/api/v1/snapshots/?page=2'',
       GetListing ''https://bitnodes.io/api/v1/snapshots/?page=2'',
       GetListing ''https://bitnodes.io/api/v1/snapshots/?page=2'',
       GetListing ''https://bitnodes.io/api/v1/snapshots/?page=2''])"
  by (simp add: fetchHistoricalData_def snapshots_cache_empty world0_def backfill_loop.simps
      initial_backfill_def env_only_def endless_page_def summary_def MAX_API_CALLS_def
      not_lastTimestamp_def ONE_WEEK_MS_def knots_snapshot_count Let_def)


theorem backfill_page_cap_witness:
  "snapshots_cache (localStorage world0) 1700000000000 = None
   \<and> list_all (\<lambda>r. request_served env_only 0 r)
         (snd (fetchHistoricalData env_only 1700000000000 world0))
   \<and> isl (axios_get_listing env_only 0 ''https://bitnodes.io/api/v1/snapshots/?page=3'')
   \<and> length (snd (fetchHistoricalData env_only 1700000000000 world0)) = 13
   \<and> listing_fetches (snd (fetchHistoricalData env_only 1700000000000 world0)) = 12"
proof -
  let ?reqs = "snd (fetchHistoricalData env_only 1700000000000 world0)"
  have miss: "snapshots_cache (localStorage world0) 1700000000000 = None"
    by (simp add: world0_def snapshots_cache_empty)
  have any_time: "request_served env_only k r = request_served env_only 0 r" for k r
    by (simp add: request_served_def env_only_def split: request.splits)
  have each: "list_all (\<lambda>r. request_served env_only 0 r) ?reqs"
    by (simp add: run_only request_served_def) (simp add: env_only_def endless_page_def)
  have served: "\<forall>k<length ?reqs. request_served env_only k (?reqs ! k)"
  proof (intro allI impI)
    fix k
    assume "k < length ?reqs"
    with each have "request_served env_only 0 (?reqs ! k)" by (simp add: list_all_length)
    then show "request_served env_only k (?reqs ! k)" by (subst any_time)
  qed
  have rejected: "isl (axios_get_listing env_only 0 ''https://bitnodes.io/api/v1/snapshots/?page=3'')"
    by (simp add: env_only_def)
  have len: "length ?reqs = 13" by (simp add: run_only)
  from backfill_page_cap[of env_only 1700000000000 world0] miss served
  have "listing_fetches ?reqs = 12" by blast
  with miss each rejected len show ?thesis by simp
qed

lemma all_ok_Nil: "all_ok e []"
  by (simp add: all_ok_def)

text \<open>
  C4: when a request of the run is rejected, or the cached text does not parse, the run
  leaves both cache keys as they were and does not replace \<open>historicalData\<close>; the error
  goes to the console.
\<close>

theorem backfill_failure_discards_partial:
  assumes run: "fetchHistoricalData e now w = (w', reqs)"
    and failure: "(\<exists>k<length reqs. request_failed e k (reqs ! k))
        \<or> (\<exists>cached err. snapshots_cache (localStorage w) now = Some cached
              \<and> JSON_parse e cached = Inl err)"
  shows "localStorage w' = localStorage w
       \<and> historicalData (app w') = historicalData (app w)
       \<and> (\<exists>err. console_error w' = console_error w @ [err])"
proof (cases "snapshots_cache (localStorage w) now")
  case (Some cached)
  with run have "reqs = []" using fetchHistoricalData_hit[of w now cached e] by simp
  with failure Some obtain err where "JSON_parse e cached = Inl err" by auto
  with run Some show ?thesis by (auto simp: fetchHistoricalData_def)
next
  case None
  obtain res st where loop: "backfill_loop e initial_backfill = (res, st)"
    by (cases "backfill_loop e initial_backfill")
  with run None have reqs: "reqs = requests st"
    using fetchHistoricalData_miss[of w now e] by simp
  from failure None reqs have "\<not> all_ok e (requests st)" by (auto simp: all_ok_def)
  with backfill_loop_all_ok[of e initial_backfill] loop have "res \<noteq> None"
    by (auto simp: initial_backfill_def all_ok_Nil)
  then obtain err where "res = Some err" by auto
  with run None loop show ?thesis by (auto simp: fetchHistoricalData_def)
qed

lemma world_stale_miss: "snapshots_cache (localStorage world_stale) 1700000000000 = None"
  by (simp add: world_stale_def snapshots_cache_stored)

lemma run_details_fail_stale:
  "fetchHistoricalData env_details_fail 1700000000000 world_stale =
     (world_stale\<lparr>console_error := [AxiosError],
                  app := (app world_stale)\<lparr>isLoadingHistorical := False\<rparr>\<rparr>,
      [GetListing ''https://bitnodes.io/api/v1/snapshots/'',
       GetSnapshot ''https://bitnodes.io/api/v1/snapshots/1700000000/''])"
  unfolding fetchHistoricalData_def world_stale_miss
  by (simp add: world_stale_def backfill_loop.simps
      initial_backfill_def env_details_fail_def endless_page_def summary_def MAX_API_CALLS_def
      not_lastTimestamp_def)

theorem backfill_failure_discards_partial_witness:
  "request_failed env_details_fail 1
      (snd (fetchHistoricalData env_details_fail 1700000000000 world_stale) ! 1)
   \<and> localStorage (fst (fetchHistoricalData env_details_fail 1700000000000 world_stale)) =
       store_snapshots Map.empty ''[]'' 0
   \<and> historicalData (app (fst (fetchHistoricalData env_details_fail 1700000000000 world_stale))) =
       [\<lparr>point_timestamp = 1690000000, point_knotsCount = 7\<rparr>]"
proof -
  let ?run = "fetchHistoricalData env_details_fail 1700000000000 world_stale"
  have failed: "request_failed env_details_fail 1 (snd ?run ! 1)"
    by (simp add: run_details_fail_stale request_failed_def) (simp add: env_details_fail_def)
  then have "\<exists>k<length (snd ?run). request_failed env_details_fail k (snd ?run ! k)"
    by (intro exI[of _ 1]) (simp add: run_details_fail_stale)
  with backfill_failure_discards_partial[of env_details_fail 1700000000000 world_stale
      "fst ?run" "snd ?run"]
  have "localStorage (fst ?run) = localStorage world_stale
      \<and> historicalData (app (fst ?run)) = historicalData (app world_stale)"
    by simp
  with failed show ?thesis by (simp add: world_stale_def initial_app_def)
qed

text \<open>
  C8: a run that finds in the cache a series written less than 24 hours before makes no
  network call, leaves the cache as it is and hands out exactly the stored series, given
  that \<open>JSON.parse\<close> reads back what \<open>JSON.stringify\<close> wrote.
\<close>

theorem backfill_within_cache_window:
  assumes stored: "localStorage w = store_snapshots st (JSON_stringify e ps) T"
    and nonempty: "JSON_stringify e ps \<noteq> []"
    and roundtrip: "JSON_parse e (JSON_stringify e ps) = Inr ps"
    and window: "now - T < 24 * 60 * 60 * 1000"
  shows "fetchHistoricalData e now w =
           (w\<lparr>app := (app w)\<lparr>historicalData := ps, isLoadingHistorical := False\<rparr>\<rparr>, [])"
  using assms by (simp add: fetchHistoricalData_def snapshots_cache_stored)

lemma fetchHistoricalData_completed:
  assumes "snapshots_cache (localStorage w) T = None"
    and "backfill_loop e initial_backfill = (None, st)"
  shows "fetchHistoricalData e T w =
     (w\<lparr>localStorage := store_snapshots (localStorage w)
            (JSON_stringify e (sort_key point_timestamp (collected st))) T,
         app := (app w)\<lparr>historicalData := sort_key point_timestamp (collected st),
                         isLoadingHistorical := False\<rparr>\<rparr>, requests st)"
  using assms by (simp add: fetchHistoricalData_def Let_def)

theorem backfill_within_cache_window_witness:
  "fetchHistoricalData env_endless 1700086399999
      (fst (fetchHistoricalData env_endless 1700000000000 world0)) =
     (fst (fetchHistoricalData env_endless 1700000000000 world0), [])
   \<and> historicalData (app (fst (fetchHistoricalData env_endless 1700000000000 world0))) =
       [\<lparr>point_timestamp = 1700000000, point_knotsCount = 1\<rparr>]
   \<and> length (snd (fetchHistoricalData env_endless 1700000000000 world0)) = 13"
proof -
  let ?ps = "[\<lparr>point_timestamp = 1700000000, point_knotsCount = 1\<rparr>]"
  let ?w1 = "fst (fetchHistoricalData env_endless 1700000000000 world0)"
  have stored: "localStorage ?w1 = store_snapshots Map.empty (JSON_stringify env_endless ?ps) 1700000000000"
    by (simp add: run_endless) (simp add: env_endless_def)
  have nonempty: "JSON_stringify env_endless ?ps \<noteq> []"
    by (simp add: env_endless_def compact_stringify_nonempty)
  have roundtrip: "JSON_parse env_endless (JSON_stringify env_endless ?ps) = Inr ?ps"
    by (simp add: env_endless_def compact_roundtrip)
  have window: "(1700086399999::int) - 1700000000000 < 24 * 60 * 60 * 1000" by simp
  from backfill_within_cache_window[OF stored nonempty roundtrip window]
  show ?thesis by (simp add: run_endless)
qed

section \<open>The spacing of the returned points\<close>

lemma week_spaced_successively:
  "week_spaced ts \<longleftrightarrow> successively (\<lambda>a b. a + 604800 \<le> b) ts"
  by (induction ts rule: week_spaced.induct) simp_all

lemma filter_snapshots_append:
  "filter_snapshots l (xs @ ys) =
     (case filter_snapshots l xs of
        (k1, l1) \<Rightarrow> (case filter_snapshots l1 ys of (k2, l2) \<Rightarrow> (k1 @ k2, l2)))"
  by (induction xs arbitrary: l) (auto split: prod.splits option.splits)

lemma filter_snapshots_spaced:
  assumes "\<forall>s \<in> set xs. timestamp s \<noteq> 0"
    and "sorted_wrt (\<ge>) (map timestamp xs)"
    and "l = None \<or> (\<exists>t. l = Some t \<and> t \<noteq> 0 \<and> (\<forall>s \<in> set xs. timestamp s \<le> t))"
    and "filter_snapshots l xs = (kept, l')"
  shows "successively (\<lambda>a b. timestamp b + 604800 \<le> timestamp a) kept
       \<and> (kept \<noteq> [] \<longrightarrow> (\<forall>t. l = Some t \<longrightarrow> timestamp (hd kept) + 604800 \<le> t))
       \<and> l' = (if kept = [] then l else Some (timestamp (last kept)))
       \<and> set kept \<subseteq> set xs"
  using assms
proof (induction xs arbitrary: l kept l')
  case Nil
  then show ?case by simp
next
  case (Cons x xs)
  have nz: "\<forall>s \<in> set xs. timestamp s \<noteq> 0" and x_nz: "timestamp x \<noteq> 0"
    and desc: "sorted_wrt (\<ge>) (map timestamp xs)" and below: "\<forall>s \<in> set xs. timestamp s \<le> timestamp x"
    using Cons.prems(1,2) by auto
  show ?case
  proof (cases "not_lastTimestamp l \<or> (\<exists>t. l = Some t \<and> \<bar>timestamp x - t\<bar> \<ge> ONE_WEEK_MS div 1000)")
    case True
    obtain k1 l1 where rec: "filter_snapshots (Some (timestamp x)) xs = (k1, l1)"
      by (cases "filter_snapshots (Some (timestamp x)) xs")
    with True Cons.prems(4) have kept: "kept = x # k1" and l': "l' = l1"
      by (auto split: option.splits if_splits)
    from Cons.IH[OF nz desc _ rec] x_nz below
    have ih: "successively (\<lambda>a b. timestamp b + 604800 \<le> timestamp a) k1"
      "k1 \<noteq> [] \<longrightarrow> timestamp (hd k1) + 604800 \<le> timestamp x"
      "l1 = (if k1 = [] then Some (timestamp x) else Some (timestamp (last k1)))"
      "set k1 \<subseteq> set xs"
      by auto
    have first: "timestamp x + 604800 \<le> t" if "l = Some t" for t
    proof -
      from Cons.prems(3) that have "t \<noteq> 0" "timestamp x \<le> t" by auto
      with True that show ?thesis
        by (auto simp: not_lastTimestamp_def ONE_WEEK_MS_def)
    qed
    from ih first show ?thesis
      unfolding kept l' by (auto simp: successively_Cons)
  next
    case False
    then obtain t where t: "l = Some t" "t \<noteq> 0" "\<not> \<bar>timestamp x - t\<bar> \<ge> ONE_WEEK_MS div 1000"
      by (cases l) (auto simp: not_lastTimestamp_def)
    with Cons.prems(4) have rec: "filter_snapshots l xs = (kept, l')"
      by (simp add: not_lastTimestamp_def)
    from Cons.prems(3) t have "l = None \<or> (\<exists>t. l = Some t \<and> t \<noteq> 0 \<and> (\<forall>s \<in> set xs. timestamp s \<le> t))"
      by auto
    from Cons.IH[OF nz desc this rec] show ?thesis by auto
  qed
qed

lemma insort_key_last:
  "\<forall>y \<in> set ys. f y < f x \<Longrightarrow> insort_key f x ys = ys @ [x]"
  by (induction ys) auto

lemma sort_key_descending:
  "sorted_wrt (\<lambda>a b. f b < f a) xs \<Longrightarrow> sort_key f xs = rev xs"
  for f :: "'a \<Rightarrow> int"
  by (induction xs) (auto simp: insort_key_last)

lemma fetch_details_timestamps:
  "fetch_details e ss reqs pts = (None, reqs', pts') \<Longrightarrow>
   map point_timestamp pts' = map point_timestamp pts @ map timestamp ss"
proof (induction ss arbitrary: reqs pts)
  case Nil
  then show ?case by simp
next
  case (Cons s ss)
  then show ?case
    by (cases "axios_get_snapshot e (length reqs) (url s)") auto
qed

lemma backfill_loop_kept:
  assumes "filter_snapshots None (listed st) = (K, lastTimestamp st)"
    and "map point_timestamp (collected st) = map timestamp K"
    and "fst (backfill_loop e st) = None"
  shows "\<exists>K'. filter_snapshots None (listed (snd (backfill_loop e st))) =
                (K', lastTimestamp (snd (backfill_loop e st)))
           \<and> map point_timestamp (collected (snd (backfill_loop e st))) = map timestamp K'"
  using assms
proof -
  have "(\<exists>K. filter_snapshots None (listed st) = (K, lastTimestamp st)
           \<and> map point_timestamp (collected st) = map timestamp K) \<longrightarrow>
        fst (backfill_loop e st) = None \<longrightarrow>
        (\<exists>K'. filter_snapshots None (listed (snd (backfill_loop e st))) =
                (K', lastTimestamp (snd (backfill_loop e st)))
           \<and> map point_timestamp (collected (snd (backfill_loop e st))) = map timestamp K')"
  proof (rule backfill_loop_rule[where P = "\<lambda>st r.
        (\<exists>K. filter_snapshots None (listed st) = (K, lastTimestamp st)
           \<and> map point_timestamp (collected st) = map timestamp K) \<longrightarrow>
        fst r = None \<longrightarrow>
        (\<exists>K'. filter_snapshots None (listed (snd r)) = (K', lastTimestamp (snd r))
           \<and> map point_timestamp (collected (snd r)) = map timestamp K')"], goal_cases)
    case (1 st)
    then show ?case by simp
  next
    case (2 st u err)
    then show ?case by simp
  next
    case (3 st u response kept l err reqs pts)
    then show ?case by simp
  next
    case (4 st u response kept l reqs pts r)
    show ?case
    proof (intro impI)
      assume inv: "\<exists>K. filter_snapshots None (listed st) = (K, lastTimestamp st)
           \<and> map point_timestamp (collected st) = map timestamp K"
        and ok: "fst r = None"
      then obtain K where K: "filter_snapshots None (listed st) = (K, lastTimestamp st)"
        "map point_timestamp (collected st) = map timestamp K" by blast
      from K(1) 4(5) have "filter_snapshots None (listed st @ results response) = (K @ kept, l)"
        by (simp add: filter_snapshots_append)
      moreover from fetch_details_timestamps[OF 4(6)] K(2)
      have "map point_timestamp pts = map timestamp (K @ kept)" by simp
      ultimately show "\<exists>K'. filter_snapshots None (listed (snd r)) = (K', lastTimestamp (snd r))
           \<and> map point_timestamp (collected (snd r)) = map timestamp K'"
        using 4(7) ok by auto
    qed
  qed
  with assms show ?thesis by blast
qed

lemma backfill_kept_listed:
  assumes "backfill_loop e initial_backfill = (None, st)"
  shows "map point_timestamp (collected st) = map timestamp (fst (filter_snapshots None (listed st)))"
  using backfill_loop_kept[of initial_backfill "[]" e] assms
  by (auto simp: initial_backfill_def)

text \<open>
  A completed run over summaries that were listed newest first, none of them with
  timestamp 0, returns points in ascending order, each at least a week after the one
  before. (\<open>listed st\<close> is the sequence of all summaries the run received.)
\<close>

lemma backfill_week_spaced:
  assumes miss: "snapshots_cache (localStorage w) now = None"
    and completed: "backfill_loop e initial_backfill = (None, st)"
    and newest_first: "sorted_wrt (\<ge>) (map timestamp (listed st))"
    and nonzero: "\<forall>s \<in> set (listed st). timestamp s \<noteq> 0"
  shows "week_spaced (map point_timestamp (historicalData (app (fst (fetchHistoricalData e now w)))))"
proof -
  obtain K l where K: "filter_snapshots None (listed st) = (K, l)"
    by (cases "filter_snapshots None (listed st)")
  from filter_snapshots_spaced[OF nonzero newest_first _ K]
  have gaps: "successively (\<lambda>a b. timestamp b + 604800 \<le> timestamp a) K" by simp
  from backfill_kept_listed[OF completed] K
  have ts: "map point_timestamp (collected st) = map timestamp K" by simp
  from gaps have "successively (\<lambda>a b. b + 604800 \<le> a) (map timestamp K)"
    by (simp add: successively_map)
  with ts have "successively (\<lambda>a b. b + 604800 \<le> a) (map point_timestamp (collected st))"
    by simp
  then have desc: "successively (\<lambda>a b. point_timestamp b + 604800 \<le> point_timestamp a)
      (collected st)"
    by (simp add: successively_map)
  then have "sorted_wrt (\<lambda>a b. point_timestamp b + 604800 \<le> point_timestamp a) (collected st)"
    by (subst (asm) successively_conv_sorted_wrt) (auto simp: transp_def)
  then have "sorted_wrt (\<lambda>a b. point_timestamp b < point_timestamp a) (collected st)"
    by (rule sorted_wrt_mono_rel[rotated]) simp
  then have "sort_key point_timestamp (collected st) = rev (collected st)"
    by (rule sort_key_descending)
  with desc miss completed show ?thesis
    by (simp add: fetchHistoricalData_completed week_spaced_successively successively_map rev_map[symmetric])
qed

lemma backfill_ascending:
  assumes "snapshots_cache (localStorage w) now = None"
    and "backfill_loop e initial_backfill = (None, st)"
  shows "sorted (map point_timestamp (historicalData (app (fst (fetchHistoricalData e now w)))))"
  using assms by (simp add: fetchHistoricalData_completed)

text \<open>
  C2: a completed run of the backfill over summaries listed newest first (\<open>listed st\<close> is
  the sequence of all summaries the run received, page after page), with Unix timestamps
  other than 0, returns points in ascending order of timestamp, each at least one week
  (604800 seconds) after the one before. Of ten snapshots at one-day intervals, two are
  kept, seven days apart.
\<close>

theorem backfill_ascending_week_spaced:
  assumes miss: "snapshots_cache (localStorage w) now = None"
    and completed: "backfill_loop e initial_backfill = (None, st)"
    and newest_first: "sorted_wrt (\<ge>) (map timestamp (listed st))"
    and nonzero: "0 \<notin> set (map timestamp (listed st))"
  shows "sorted (map point_timestamp (historicalData (app (fst (fetchHistoricalData e now w)))))
       \<and> week_spaced
            (map point_timestamp (historicalData (app (fst (fetchHistoricalData e now w)))))"
proof -
  from nonzero have "\<forall>s \<in> set (listed st). timestamp s \<noteq> 0" by auto
  from backfill_week_spaced[OF miss completed newest_first this]
    backfill_ascending[OF miss completed]
  show ?thesis by simp
qed

lemma filter_daily_listing:
  "filter_snapshots None daily_listing =
     ([summary ''https://bitnodes.io/api/v1/snapshots/1700000000/'' 1700000000,
       summary ''https://bitnodes.io/api/v1/snapshots/1699395200/'' 1699395200],
      Some 1699395200)"
  by (simp add: daily_listing_def summary_def not_lastTimestamp_def ONE_WEEK_MS_def)

lemma loop_daily:
  "backfill_loop env_daily initial_backfill =
     (None,
      \<lparr>collected = [\<lparr>point_timestamp = 1700000000, point_knotsCount = 1\<rparr>,
                    \<lparr>point_timestamp = 1699395200, point_knotsCount = 1\<rparr>],
       nextUrl = None, lastTimestamp = Some 1699395200, apiCallCount = 1,
       requests = [GetListing ''https://bitnodes.io/api/v1/snapshots/'',
                   GetSnapshot ''https://bitnodes.io/api/v1/snapshots/1700000000/'',
                   GetSnapshot ''https://bitnodes.io/api/v1/snapshots/1699395200/''],
       listed = daily_listing\<rparr>)"
  by (simp add: backfill_loop.simps initial_backfill_def env_daily_def filter_daily_listing
      summary_def MAX_API_CALLS_def knots_snapshot_count Let_def)

theorem backfill_ascending_week_spaced_witness:
  "snapshots_cache (localStorage world0) 1700000000000 = None
   \<and> sorted_wrt (\<ge>) (map timestamp daily_listing)
   \<and> 0 \<notin> set (map timestamp daily_listing)
   \<and> map point_timestamp
        (historicalData (app (fst (fetchHistoricalData env_daily 1700000000000 world0)))) =
       [1699395200, 1700000000]
   \<and> week_spaced [1699395200, 1700000000]"
proof -
  let ?st = "snd (backfill_loop env_daily initial_backfill)"
  have miss: "snapshots_cache (localStorage world0) 1700000000000 = None"
    by (simp add: world0_def snapshots_cache_empty)
  have completed: "backfill_loop env_daily initial_backfill = (None, ?st)"
    by (simp add: loop_daily)
  have listed: "listed ?st = daily_listing" by (simp add: loop_daily)
  have newest_first: "sorted_wrt (\<ge>) (map timestamp daily_listing)"
    by (simp add: daily_listing_def summary_def)
  have nonzero: "0 \<notin> set (map timestamp daily_listing)"
    by (simp add: daily_listing_def summary_def)
  have run: "map point_timestamp
        (historicalData (app (fst (fetchHistoricalData env_daily 1700000000000 world0)))) =
       [1699395200, 1700000000]"
    using miss by (simp add: fetchHistoricalData_completed[OF miss completed] loop_daily)
  from backfill_ascending_week_spaced[OF miss completed] newest_first nonzero listed
  have "week_spaced (map point_timestamp
        (historicalData (app (fst (fetchHistoricalData env_daily 1700000000000 world0)))))"
    by simp
  with miss newest_first nonzero run show ?thesis by simp
qed

lemma filter_day_listing:
  "filter_snapshots None day_listing =
     ([summary ''https://bitnodes.io/api/v1/snapshots/604800/'' 604800,
       summary ''https://bitnodes.io/api/v1/snapshots/0/'' 0,
       summary ''https://bitnodes.io/api/v1/snapshots/-86400/'' (- 86400)], Some (- 86400))"
  by (simp add: day_listing_def summary_def not_lastTimestamp_def ONE_WEEK_MS_def)

text \<open>
  The hypothesis on the timestamp 0 is needed: \<open>!lastTimestamp\<close> is also true when the last
  kept timestamp is the number 0, and the summary after it is then kept whatever its
  distance. A listing of ten snapshots at one-day intervals around the start of Unix time
  gives two points one day apart.
\<close>

lemma backfill_at_timestamp_zero:
  "map timestamp day_listing =
     [604800, 518400, 432000, 345600, 259200, 172800, 86400, 0, - 86400, - 172800]
   \<and> map point_timestamp
        (historicalData (app (fst (fetchHistoricalData env_1970 1700000000000 world0)))) =
       [- 86400, 0, 604800]
   \<and> \<not> week_spaced [- 86400, 0, 604800]"
proof -
  have "map timestamp day_listing =
     [604800, 518400, 432000, 345600, 259200, 172800, 86400, 0, - 86400, - 172800]"
    by (simp add: day_listing_def summary_def)
  moreover have "map point_timestamp
        (historicalData (app (fst (fetchHistoricalData env_1970 1700000000000 world0)))) =
       [- 86400, 0, 604800]"
    by (simp add: fetchHistoricalData_def snapshots_cache_empty world0_def backfill_loop.simps
        initial_backfill_def env_1970_def filter_day_listing summary_def MAX_API_CALLS_def Let_def)
  ultimately show ?thesis by simp
qed

end
